theory Spec2Isabelle
  imports Complex_Main "HOL-Library.Sublist" "HOL-Library.Log_Nat"
begin

section \<open>JavaScript values\<close>

text \<open>
  A JavaScript string is a sequence of UTF-16 code units. The share texts handled by
  \<open>extractRedBookUrl\<close> mix ASCII links with Chinese prose, and one of its patterns names
  the full-width comma U+FF0C, so code units are natural numbers here rather than bytes.
  \<open>of_ascii\<close> embeds an ASCII literal of the source.
\<close>

type_synonym js_string = "nat list"

definition of_ascii :: "string \<Rightarrow> js_string" where
  "of_ascii cs = map of_char cs"

section \<open>Regular expressions of \<open>extractRedBookUrl\<close>\<close>

text \<open>
  The fragment of JavaScript regular expressions that the two patterns of
  \<open>src/tools/rednoteTools.ts\<close> (lines 93 and 101) use: literal characters, character
  classes given by ranges (possibly negated), sequencing, the greedy \<open>?\<close> and the
  greedy \<open>+\<close>. Both patterns carry the flag \<open>i\<close>; neither carries \<open>g\<close> or \<open>u\<close>.
\<close>

datatype regex =
    Eps
  | Chr nat
  | Cls "(nat \<times> nat) list" bool
  | Seq regex regex
  | Opt regex
  | Plus regex

text \<open>
  Case folding of the flag \<open>i\<close> (the specification's Canonicalize, without \<open>u\<close>): a code
  unit is compared after upper-casing. Only ASCII letters are folded here. This loses nothing
  for the two patterns: a code unit of 128 or more is never canonicalised to an ASCII one,
  and no code unit other than themselves is upper-cased to a white-space code unit or to
  U+FF0C, which are the only non-ASCII members of the patterns.
\<close>

definition to_upper :: "nat \<Rightarrow> nat" where
  "to_upper c = (if 97 \<le> c \<and> c \<le> 122 then c - 32 else c)"

definition to_lower :: "nat \<Rightarrow> nat" where
  "to_lower c = (if 65 \<le> c \<and> c \<le> 90 then c + 32 else c)"

definition ci_eq :: "nat \<Rightarrow> nat \<Rightarrow> bool" where
  "ci_eq p c = (to_upper p = to_upper c)"

text \<open>
  Membership in a class under \<open>i\<close>: some member of some range has the canonical form of
  the input, that is, the input or its other case lies in the range.
\<close>

definition in_range_ci :: "nat \<Rightarrow> nat \<times> nat \<Rightarrow> bool" where
  "in_range_ci c r =
     (fst r \<le> c \<and> c \<le> snd r
      \<or> fst r \<le> to_upper c \<and> to_upper c \<le> snd r
      \<or> fst r \<le> to_lower c \<and> to_lower c \<le> snd r)"

definition cls_mem :: "(nat \<times> nat) list \<Rightarrow> bool \<Rightarrow> nat \<Rightarrow> bool" where
  "cls_mem rs neg c = (list_ex (in_range_ci c) rs \<noteq> neg)"

text \<open>
  The backtracking matcher. \<open>rx r s\<close> lists, in the order in which the engine tries them,
  the inputs that remain after each way of matching \<open>r\<close> at the start of \<open>s\<close>; the head
  of the list is the match the engine reports. A greedy \<open>+\<close> matches its body once and
  then as often as possible; an iteration after the first that consumes nothing is rejected,
  as the specification's RepeatMatcher does.
\<close>

function rx :: "regex \<Rightarrow> js_string \<Rightarrow> js_string list"
  and rx_star :: "regex \<Rightarrow> js_string \<Rightarrow> js_string list" where
  "rx Eps s = [s]"
| "rx (Chr p) s = (case s of [] \<Rightarrow> [] | c # cs \<Rightarrow> if ci_eq p c then [cs] else [])"
| "rx (Cls rs neg) s = (case s of [] \<Rightarrow> [] | c # cs \<Rightarrow> if cls_mem rs neg c then [cs] else [])"
| "rx (Seq a b) s = concat (map (rx b) (rx a s))"
| "rx (Opt a) s = rx a s @ [s]"
| "rx (Plus a) s = concat (map (rx_star a) (rx a s))"
| "rx_star a s =
     concat (map (\<lambda>r. if length r < length s then rx_star a r else []) (rx a s)) @ [s]"
  by pat_completeness auto
termination
  by (relation "inv_image (less_than <*lex*> less_than <*lex*> less_than)
        (\<lambda>x. case x of Inl (r, s) \<Rightarrow> (size r, 0::nat, 0::nat)
                      | Inr (a, s) \<Rightarrow> (size a, 1, length s))") auto

text \<open>
  \<open>String.prototype.match\<close> with a pattern without the flag \<open>g\<close>: the leftmost start
  index at which the pattern matches, and there the first match in backtracking order.
  The result is the matched substring; both patterns are one capture group, so this is
  also \<open>match[1]\<close>.
\<close>

fun js_match :: "regex \<Rightarrow> js_string \<Rightarrow> js_string option" where
  "js_match r [] = (case rx r [] of rest # _ \<Rightarrow> Some [] | [] \<Rightarrow> None)"
| "js_match r (c # cs) =
     (case rx r (c # cs) of
        rest # _ \<Rightarrow> Some (take (length (c # cs) - length rest) (c # cs))
      | [] \<Rightarrow> js_match r cs)"

definition lit :: "string \<Rightarrow> regex" where
  "lit cs = foldr (\<lambda>c r. Seq (Chr (of_char c)) r) cs Eps"

text \<open>The class \<open>[a-zA-Z0-9\/]\<close> of the short-link pattern.\<close>

definition path_class :: "(nat \<times> nat) list" where
  "path_class = [(97, 122), (65, 90), (48, 57), (47, 47)]"

text \<open>
  The members of \<open>[^\<dots>\s]\<close> in the canonical-domain pattern: the full-width comma U+FF0C,
  then the code units of \<open>\s\<close> (WhiteSpace and LineTerminator of the language
  specification).
\<close>

definition stop_class :: "(nat \<times> nat) list" where
  "stop_class =
     [(0xFF0C, 0xFF0C),
      (9, 13), (32, 32), (0xA0, 0xA0), (0x1680, 0x1680), (0x2000, 0x200A),
      (0x2028, 0x2029), (0x202F, 0x202F), (0x205F, 0x205F), (0x3000, 0x3000),
      (0xFEFF, 0xFEFF)]"

text \<open>\<^verbatim>\<open>/(https?:\/\/xhslink\.com\/[a-zA-Z0-9\/]+)/i\<close>\<close>

definition xhslinkRegex :: regex where
  "xhslinkRegex =
     Seq (lit ''http'') (Seq (Opt (lit ''s''))
       (Seq (lit ''://xhslink.com/'') (Plus (Cls path_class False))))"

text \<open>\<^verbatim>\<open>/(https?:\/\/(?:www\.)?xiaohongshu\.com\/[^<U+FF0C>\s]+)/i\<close>\<close>

definition xiaohongshuRegex :: regex where
  "xiaohongshuRegex =
     Seq (lit ''http'') (Seq (Opt (lit ''s''))
       (Seq (lit ''://'') (Seq (Opt (lit ''www.''))
         (Seq (lit ''xiaohongshu.com/'') (Plus (Cls stop_class True))))))"

text \<open>
  \<open>extractRedBookUrl\<close> (rednoteTools.ts, lines 91 to 109). A match object is truthy;
  \<open>match[1]\<close> is truthy when it is not the empty string.
\<close>

definition extractRedBookUrl :: "js_string \<Rightarrow> js_string" where
  "extractRedBookUrl shareText =
     (case js_match xhslinkRegex shareText of
        Some m \<Rightarrow> if m \<noteq> [] then m
                  else (case js_match xiaohongshuRegex shareText of
                          Some m' \<Rightarrow> if m' \<noteq> [] then m' else shareText
                        | None \<Rightarrow> shareText)
      | None \<Rightarrow>
          (case js_match xiaohongshuRegex shareText of
             Some m' \<Rightarrow> if m' \<noteq> [] then m' else shareText
           | None \<Rightarrow> shareText))"

definition ci_prefix :: "string \<Rightarrow> js_string \<Rightarrow> bool" where
  "ci_prefix w s = (length w \<le> length s \<and> list_all2 ci_eq (of_ascii w) (take (length w) s))"

definition link_start :: "string \<Rightarrow> (nat \<Rightarrow> bool) \<Rightarrow> js_string \<Rightarrow> bool" where
  "link_start h ok t =
     (ci_prefix h t \<and> (case drop (length h) t of [] \<Rightarrow> False | c # _ \<Rightarrow> ok c))"

definition link_rest :: "string \<Rightarrow> (nat \<Rightarrow> bool) \<Rightarrow> js_string \<Rightarrow> js_string" where
  "link_rest h ok t = dropWhile ok (drop (length h) t)"

definition is_link :: "string list \<Rightarrow> (nat \<Rightarrow> bool) \<Rightarrow> js_string \<Rightarrow> bool" where
  "is_link hs ok m =
     list_ex (\<lambda>h. ci_prefix h m \<and> drop (length h) m \<noteq> [] \<and> list_all ok (drop (length h) m)) hs"

definition alts :: "string list \<Rightarrow> (nat \<times> nat) list \<Rightarrow> bool \<Rightarrow> js_string \<Rightarrow> js_string list" where
  "alts hs rs neg t = concat (map (\<lambda>h. rx (Seq (lit h) (Plus (Cls rs neg))) t) hs)"

definition path_char :: "nat \<Rightarrow> bool" where
  "path_char c = (97 \<le> c \<and> c \<le> 122 \<or> 65 \<le> c \<and> c \<le> 90 \<or> 48 \<le> c \<and> c \<le> 57 \<or> c = 47)"

definition white_space :: "nat \<Rightarrow> bool" where
  "white_space c =
     (9 \<le> c \<and> c \<le> 13 \<or> c = 32 \<or> c = 0xA0 \<or> c = 0x1680 \<or> 0x2000 \<le> c \<and> c \<le> 0x200A
      \<or> 0x2028 \<le> c \<and> c \<le> 0x2029 \<or> c = 0x202F \<or> c = 0x205F \<or> c = 0x3000 \<or> c = 0xFEFF)"

definition stop_char :: "nat \<Rightarrow> bool" where
  "stop_char c = (c = 0xFF0C \<or> white_space c)"

definition url_char :: "nat \<Rightarrow> bool" where
  "url_char c = (\<not> stop_char c)"

definition short_hosts :: "string list" where
  "short_hosts = [''https://xhslink.com/'', ''http://xhslink.com/'']"

definition canonical_hosts :: "string list" where
  "canonical_hosts =
     [''https://www.xiaohongshu.com/'', ''https://xiaohongshu.com/'',
      ''http://www.xiaohongshu.com/'', ''http://xiaohongshu.com/'']"

definition short_link :: "js_string \<Rightarrow> bool" where
  "short_link m = is_link short_hosts path_char m"

definition canonical_link :: "js_string \<Rightarrow> bool" where
  "canonical_link m = is_link canonical_hosts url_char m"

definition has_link :: "(js_string \<Rightarrow> bool) \<Rightarrow> js_string \<Rightarrow> bool" where
  "has_link L s = (\<exists>pre m suf. s = pre @ m @ suf \<and> L m)"

definition first_link :: "(js_string \<Rightarrow> bool) \<Rightarrow> (nat \<Rightarrow> bool) \<Rightarrow> js_string \<Rightarrow> js_string \<Rightarrow> bool" where
  "first_link L ok s m =
     (\<exists>pre suf. s = pre @ m @ suf \<and> L m \<and> (suf = [] \<or> \<not> ok (hd suf))
        \<and> (\<forall>pre' m' suf'. s = pre' @ m' @ suf' \<and> L m' \<longrightarrow> length pre \<le> length pre'))"

text \<open>
  Three share texts: Chinese prose around a short link (``look <link>, copy''), a canonical
  link followed by a full-width comma, and a short-link host with no path.
\<close>

definition share_text_short :: js_string where
  "share_text_short =
     [0x770B] @ of_ascii '' http://xhslink.com/a/Bc1'' @ [0xFF0C, 0x590D, 0x5236]"

definition share_text_canonical :: js_string where
  "share_text_canonical =
     of_ascii ''see https://www.xiaohongshu.com/explore/66aa?x=1'' @ [0xFF0C] @ of_ascii ''more''"

definition share_text_plain :: js_string where
  "share_text_plain = of_ascii ''http://xhslink.com/''"

section \<open>Numbers\<close>

text \<open>
  A JavaScript number is an IEEE 754 double. The model takes the finite ones, as the rationals
  they are; \<open>NaN\<close> and the infinities are not modelled. The numbers that a caller passes are
  doubles already. The code computes with them in one place, \<open>timeout / 3\<close>, where the
  quotient is rounded to the nearest double, ties to even.

  \<open>binade a\<close> is the exponent of the power of two at or below \<open>a\<close>, for \<open>0 < a\<close>. A double
  has 53 significant bits, and exponents from \<open>- 1022\<close> on: \<open>ulp a\<close> is the spacing of the
  doubles at \<open>a\<close> (below the exponent \<open>- 1022\<close> it stays that of \<open>- 1022\<close>). \<open>round_double\<close>
  is right for magnitudes below \<open>2 ^ 1024\<close>, which a quotient of a double by 3 never leaves.
\<close>

definition round_half_even :: "rat \<Rightarrow> int" where
  "round_half_even x =
     (let f = \<lfloor>x\<rfloor>; r = x - of_int f
      in if r < 1 / 2 then f else if 1 / 2 < r then f + 1 else if even f then f else f + 1)"

definition binade :: "rat \<Rightarrow> int" where
  "binade a = (if 1 \<le> a then bitlen \<lfloor>a\<rfloor> - 1 else - bitlen (\<lceil>1 / a\<rceil> - 1))"

definition ulp :: "rat \<Rightarrow> rat" where
  "ulp a = 2 powi (max (binade a) (- 1022) - 52)"

definition round_double :: "rat \<Rightarrow> rat" where
  "round_double q =
     (if q = 0 then 0
      else sgn q * of_int (round_half_even (\<bar>q\<bar> / ulp \<bar>q\<bar>)) * ulp \<bar>q\<bar>)"

section \<open>Effects: the browser driver, errors and the call log\<close>

text \<open>
  Timeouts and limits are finite numbers.

  A message built by a template literal is kept as its pieces: \<open>Text\<close> for the literal
  parts and for strings spliced in, \<open>Number q\<close> for the decimal rendering of a number
  that the template inserts with \<open>${...}\<close>. An \<open>Error\<close> object is its message.
\<close>

datatype piece = Text js_string | Number rat

type_synonym js_error = "piece list"

text \<open>
  The code drives a browser through Playwright and waits for timers. What such a call does
  is not decided by the repository: it resolves with a value or rejects with an error.
  The model takes these outcomes as data (\<open>Throws\<close> carries the message of the
  rejection) and records every call, with the arguments the code passes, in a call log.
  Closing a page, a context or a browser, timers and logging do not fail.
\<close>

datatype 'a outcome = Throws js_string | Returns 'a

type_synonym handle = nat

datatype cookie = Cookie js_string js_string

datatype wait_state = Visible | Detached

datatype event =
    Launch
  | NewContext handle
  | NewPage handle
  | AddCookies "cookie list"
  | ContextCookies
  | LoadCookies
  | SaveCookies "cookie list"
  | Goto js_string rat
  | Query js_string
  | QueryAll js_string
  | Evaluate
  | WaitForSelector js_string wait_state rat
  | NoteDetailCall rat
  | ClickCover nat
  | Click
  | ClosePage handle
  | CloseContext handle
  | CloseBrowser handle
  | Sleep rat
  | RandomDelay rat rat

text \<open>
  An asynchronous method of an object with fields \<open>'s\<close>: it returns a value or throws,
  leaves the object's fields updated, and has made the listed calls.
\<close>

type_synonym ('s, 'a) io = "'s \<Rightarrow> (js_error + 'a) \<times> 's \<times> event list"

definition ret :: "'a \<Rightarrow> ('s, 'a) io" where
  "ret x s = (Inr x, s, [])"

definition throw :: "js_error \<Rightarrow> ('s, 'a) io" where
  "throw e s = (Inl e, s, [])"

definition bind :: "('s, 'a) io \<Rightarrow> ('a \<Rightarrow> ('s, 'b) io) \<Rightarrow> ('s, 'b) io" where
  "bind m f s =
     (case m s of
        (Inl e, s', tr) \<Rightarrow> (Inl e, s', tr)
      | (Inr x, s', tr) \<Rightarrow> (case f x s' of (r, s'', tr') \<Rightarrow> (r, s'', tr @ tr')))"

text \<open>\<open>try { m } catch (error) { h error }\<close>\<close>

definition try_catch :: "('s, 'a) io \<Rightarrow> (js_error \<Rightarrow> ('s, 'a) io) \<Rightarrow> ('s, 'a) io" where
  "try_catch m h s =
     (case m s of
        (Inl e, s', tr) \<Rightarrow> (case h e s' of (r, s'', tr') \<Rightarrow> (r, s'', tr @ tr'))
      | (Inr x, s', tr) \<Rightarrow> (Inr x, s', tr))"

text \<open>
  \<open>try { m } finally { c }\<close>: \<open>c\<close> runs on every exit of \<open>m\<close>; the outcome is that of
  \<open>m\<close> unless \<open>c\<close> itself throws.
\<close>

definition try_finally :: "('s, 'a) io \<Rightarrow> ('s, unit) io \<Rightarrow> ('s, 'a) io" where
  "try_finally m c s =
     (case m s of
        (r, s', tr) \<Rightarrow>
          (case c s' of
             (Inl e, s'', tr') \<Rightarrow> (Inl e, s'', tr @ tr')
           | (Inr _, s'', tr') \<Rightarrow> (r, s'', tr @ tr')))"

definition emit :: "event \<Rightarrow> ('s, unit) io" where
  "emit ev s = (Inr (), s, [ev])"

text \<open>An awaited driver call: it is logged, then resolves or rejects as the outcome says.\<close>

definition await :: "event \<Rightarrow> 'a outcome \<Rightarrow> ('s, 'a) io" where
  "await ev out s =
     (case out of Throws m \<Rightarrow> (Inl [Text m], s, [ev]) | Returns v \<Rightarrow> (Inr v, s, [ev]))"

definition modify :: "('s \<Rightarrow> 's) \<Rightarrow> ('s, unit) io" where
  "modify f s = (Inr (), f s, [])"

definition reads :: "('s \<Rightarrow> 'a) \<Rightarrow> ('s, 'a) io" where
  "reads f s = (Inr (f s), s, [])"

text \<open>Projections of a run.\<close>

definition result :: "(js_error + 'a) \<times> 's \<times> event list \<Rightarrow> js_error + 'a" where
  "result r = fst r"

definition final :: "(js_error + 'a) \<times> 's \<times> event list \<Rightarrow> 's" where
  "final r = fst (snd r)"

definition calls :: "(js_error + 'a) \<times> 's \<times> event list \<Rightarrow> event list" where
  "calls r = snd (snd r)"

section \<open>The session manager (\<open>src/auth/authManager.ts\<close>)\<close>

text \<open>
  The fields of an \<open>AuthManager\<close>. \<open>cookie_file\<close> is the state behind its
  \<open>cookieManager\<close>: the cookies persisted on disk.
\<close>

record auth_manager =
  am_browser :: "handle option"
  am_context :: "handle option"
  am_page :: "handle option"
  cookie_file :: "cookie list"

text \<open>
  Modelled from the spec: \<open>CookieManager.loadCookies\<close> and \<open>CookieManager.saveCookies\<close>
  (\<open>src/auth/cookieManager.ts\<close> is not among the sources). The Credential Store contract:
  \<open>load\<close> returns the persisted sequence of cookies, possibly empty; \<open>save\<close>
  overwrites the prior content.
\<close>

definition loadCookies :: "(auth_manager, cookie list) io" where
  "loadCookies s = (Inr (cookie_file s), s, [LoadCookies])"

definition saveCookies :: "cookie list \<Rightarrow> (auth_manager, unit) io" where
  "saveCookies cookies s = (Inr (), s\<lparr>cookie_file := cookies\<rparr>, [SaveCookies cookies])"

text \<open>
  What the browser does during one login attempt: the outcome of each call of lines 75 to
  153, in the order of the code. Only one of the two reads of the context's cookies (lines
  103 and 152) runs in an attempt.
\<close>

record attempt_env =
  r_newContext :: "handle outcome"
  r_newPage :: "handle outcome"
  r_addCookies :: "unit outcome"
  r_goto :: "unit outcome"
  r_sidebar :: "bool outcome"
  r_probe :: "bool outcome"
  r_dialog :: "unit outcome"
  r_qrcode :: "unit outcome"
  r_human :: "unit outcome"
  r_verify :: "bool outcome"
  r_cookies :: "cookie list outcome"

definition explore_url :: js_string where
  "explore_url = of_ascii ''https://www.xiaohongshu.com/explore''"

definition sidebar_selector :: js_string where
  "sidebar_selector = of_ascii ''.user.side-bar-component .channel''"

definition login_container :: js_string where
  "login_container = of_ascii ''.login-container''"

definition qrcode_img :: js_string where
  "qrcode_img = of_ascii ''.qrcode-img''"

text \<open>
  \<open>Math.min(10000, timeout / 3)\<close>, lines 89, 113, 116, 123 and 126: the quotient is the
  double that the division yields.
\<close>

definition sub_timeout :: "rat \<Rightarrow> rat" where
  "sub_timeout timeout = min 10000 (round_double (timeout / 3))"

definition maxRetries :: nat where
  "maxRetries = 3"

text \<open>
  The messages of lines 116, 126, 136 and 167. The Chinese labels read ``login dialog load
  timeout'', ``QR code load timeout'', ``waiting for user login timeout'' and ``login failed,
  maximum number of retries reached''; they are given by their code units.
\<close>

definition dialog_timeout_error :: "rat \<Rightarrow> js_error \<Rightarrow> js_error" where
  "dialog_timeout_error timeout message =
     [Text ([0x767B, 0x5F55, 0x5BF9, 0x8BDD, 0x6846, 0x52A0, 0x8F7D, 0x8D85, 0x65F6] @ of_ascii '' (''),
      Number (sub_timeout timeout), Text (of_ascii ''ms): '')] @ message"

definition qrcode_timeout_error :: "rat \<Rightarrow> js_error \<Rightarrow> js_error" where
  "qrcode_timeout_error timeout message =
     [Text ([0x4E8C, 0x7EF4, 0x7801, 0x52A0, 0x8F7D, 0x8D85, 0x65F6] @ of_ascii '' (''),
      Number (sub_timeout timeout), Text (of_ascii ''ms): '')] @ message"

definition human_timeout_error :: "rat \<Rightarrow> js_error \<Rightarrow> js_error" where
  "human_timeout_error timeout message =
     [Text ([0x7B49, 0x5F85, 0x7528, 0x6237, 0x767B, 0x5F55, 0x8D85, 0x65F6] @ of_ascii '' (''),
      Number timeout, Text (of_ascii ''ms): '')] @ message"

definition login_failed_error :: "js_error \<Rightarrow> js_error" where
  "login_failed_error message =
     [Text ([0x767B, 0x5F55, 0x5931, 0x8D25, 0xFF0C, 0x5DF2, 0x8FBE, 0x5230, 0x6700, 0x5927,
             0x91CD, 0x8BD5, 0x6B21, 0x6570] @ of_ascii '' (''),
      Number (of_nat maxRetries), Text (of_ascii ''): '')] @ message"

text \<open>Lines 103 to 105 and 152 to 154: read the context's cookies and save them.\<close>

definition persist_cookies :: "attempt_env \<Rightarrow> (auth_manager, unit) io" where
  "persist_cookies e =
     bind (await ContextCookies (r_cookies e)) (\<lambda>newCookies. saveCookies newCookies)"

text \<open>Lines 109 to 154: the login dialog, the QR code, the human, the verification.\<close>

definition login_dialog_phase :: "rat \<Rightarrow> attempt_env \<Rightarrow> (auth_manager, unit) io" where
  "login_dialog_phase timeout e =
     bind (try_catch
             (await (WaitForSelector login_container Visible (sub_timeout timeout)) (r_dialog e))
             (\<lambda>error. throw (dialog_timeout_error timeout error))) (\<lambda>_.
     bind (try_catch
             (await (WaitForSelector qrcode_img Visible (sub_timeout timeout)) (r_qrcode e))
             (\<lambda>error. throw (qrcode_timeout_error timeout error))) (\<lambda>_.
     bind (try_catch
             (await (WaitForSelector sidebar_selector Visible timeout) (r_human e))
             (\<lambda>error. throw (human_timeout_error timeout error))) (\<lambda>_.
     bind (await Evaluate (r_verify e)) (\<lambda>isLoggedIn.
       if \<not> isLoggedIn then throw [Text (of_ascii ''Login verification failed'')]
       else persist_cookies e))))"

text \<open>Lines 76 to 107: the attempt once its context exists.\<close>

definition login_in_context :: "rat \<Rightarrow> attempt_env \<Rightarrow> handle \<Rightarrow> (auth_manager, unit) io" where
  "login_in_context timeout e context =
     bind (modify (\<lambda>s. s\<lparr>am_context := Some context\<rparr>)) (\<lambda>_.
     bind (await (NewPage context) (r_newPage e)) (\<lambda>page.
     bind (modify (\<lambda>s. s\<lparr>am_page := Some page\<rparr>)) (\<lambda>_.
     bind loadCookies (\<lambda>cookies.
     bind (if cookies \<noteq> [] then await (AddCookies cookies) (r_addCookies e) else ret ()) (\<lambda>_.
     bind (await (Goto explore_url (sub_timeout timeout)) (r_goto e)) (\<lambda>_.
     bind (await (Query sidebar_selector) (r_sidebar e)) (\<lambda>userSidebar.
       if userSidebar then
         bind (await Evaluate (r_probe e)) (\<lambda>isLoggedIn.
           if isLoggedIn then persist_cookies e
           else login_dialog_phase timeout e)
       else login_dialog_phase timeout e)))))))"

text \<open>
  Lines 74 to 154: the body of the \<open>try\<close> block, one attempt. Calling a method of a
  \<open>null\<close> browser would throw a \<open>TypeError\<close> inside the \<open>try\<close>.
\<close>

definition login_attempt :: "rat \<Rightarrow> attempt_env \<Rightarrow> (auth_manager, unit) io" where
  "login_attempt timeout e =
     bind (reads am_browser) (\<lambda>browser.
     bind (case browser of
             None \<Rightarrow> throw [Text (of_ascii ''Cannot read properties of null'')]
           | Some b \<Rightarrow> await (NewContext b) (r_newContext e)) (\<lambda>context.
       login_in_context timeout e context))"

text \<open>Lines 158 and 159: close the page and the context of the session, if any.\<close>

definition close_session :: "(auth_manager, unit) io" where
  "close_session =
     bind (reads am_page) (\<lambda>page.
     bind (case page of Some p \<Rightarrow> emit (ClosePage p) | None \<Rightarrow> ret ()) (\<lambda>_.
     bind (reads am_context) (\<lambda>context.
       case context of Some c \<Rightarrow> emit (CloseContext c) | None \<Rightarrow> ret ())))"

text \<open>
  Lines 72 to 170: the retry loop. \<open>env retryCount\<close> is what the browser does during the
  attempt numbered \<open>retryCount\<close> (from 0).
\<close>

function login_loop :: "rat \<Rightarrow> (nat \<Rightarrow> attempt_env) \<Rightarrow> nat \<Rightarrow> (auth_manager, unit) io" where
  "login_loop timeout env retryCount s =
     (if retryCount < maxRetries then
        try_catch (login_attempt timeout (env retryCount))
          (\<lambda>error.
             bind close_session (\<lambda>_.
               if retryCount + 1 < maxRetries
               then bind (emit (Sleep 2000)) (\<lambda>_ s'. login_loop timeout env (retryCount + 1) s')
               else throw (login_failed_error error))) s
      else ret () s)"
  by pat_completeness auto
termination
  by (relation "measure (\<lambda>(timeout, env, retryCount, s). maxRetries - retryCount)") auto

text \<open>
  \<open>login\<close>, lines 61 to 171. The browser is launched before the loop and outside its
  \<open>try\<close>; a launched browser is an object, so the test of line 64 never fires.
\<close>

definition login :: "rat \<Rightarrow> handle outcome \<Rightarrow> (nat \<Rightarrow> attempt_env) \<Rightarrow> (auth_manager, unit) io" where
  "login timeout launch env =
     bind (await Launch launch) (\<lambda>browser.
     bind (modify (\<lambda>s. s\<lparr>am_browser := Some browser\<rparr>)) (\<lambda>_.
       login_loop timeout env 0))"


text \<open>\<open>AuthManager.cleanup\<close>, lines 173 to 180: the browser is dropped, not closed.\<close>

definition auth_cleanup :: "(auth_manager, unit) io" where
  "auth_cleanup =
     bind close_session (\<lambda>_.
       modify (\<lambda>s. s\<lparr>am_page := None, am_context := None, am_browser := None\<rparr>))"

text \<open>\<open>getBrowser\<close>, lines 46 to 54, and \<open>getCookies\<close>, lines 56 to 59.\<close>

definition getBrowser :: "handle outcome \<Rightarrow> (auth_manager, handle) io" where
  "getBrowser launch =
     bind (reads am_browser) (\<lambda>browser.
       case browser of
         None \<Rightarrow>
           bind (await Launch launch) (\<lambda>b.
           bind (modify (\<lambda>s. s\<lparr>am_browser := Some b\<rparr>)) (\<lambda>_. ret b))
       | Some b \<Rightarrow> ret b)"

definition getCookies :: "(auth_manager, cookie list) io" where
  "getCookies = loadCookies"

text \<open>A fresh \<open>AuthManager\<close> (the constructor, lines 17 to 44) over a cookie file.\<close>

definition new_auth_manager :: "cookie list \<Rightarrow> auth_manager" where
  "new_auth_manager file =
     \<lparr>am_browser = None, am_context = None, am_page = None, cookie_file = file\<rparr>"

section \<open>The extraction workflows (\<open>src/tools/rednoteTools.ts\<close>)\<close>

text \<open>
  The fields of a \<open>RedNoteTools\<close>: its own \<open>AuthManager\<close>, the browser and page of the
  call in progress, and the instance default timeout.
\<close>

record rednote_tools =
  authManager :: auth_manager
  rt_browser :: "handle option"
  rt_page :: "handle option"
  rt_timeout :: rat

text \<open>
  \<open>timeout || this.timeout\<close>: an omitted argument is \<open>undefined\<close>; \<open>undefined\<close> and \<open>0\<close>
  are falsy (\<open>NaN\<close> is not modelled).
\<close>

definition or_default :: "rat option \<Rightarrow> rat \<Rightarrow> rat" where
  "or_default timeout d = (case timeout of None \<Rightarrow> d | Some t \<Rightarrow> if t = 0 then d else t)"

text \<open>The constructor, lines 28 to 37.\<close>

definition new_rednote_tools :: "rat option \<Rightarrow> cookie list \<Rightarrow> rednote_tools" where
  "new_rednote_tools timeout file =
     \<lparr>authManager = new_auth_manager file, rt_browser = None, rt_page = None,
      rt_timeout = or_default timeout 30000\<rparr>"

text \<open>A method of \<open>this.authManager\<close>, run on the field and written back.\<close>

definition in_auth :: "(auth_manager, 'a) io \<Rightarrow> (rednote_tools, 'a) io" where
  "in_auth m s =
     (case m (authManager s) of (r, a, tr) \<Rightarrow> (r, s\<lparr>authManager := a\<rparr>, tr))"

text \<open>The outcomes of the calls of \<open>initialize\<close>, lines 43 to 65.\<close>

record init_env =
  i_launch :: "handle outcome"
  i_newPage :: "handle outcome"
  i_addCookies :: "unit outcome"
  i_goto :: "unit outcome"
  i_loggedIn :: "bool outcome"

definition home_url :: js_string where
  "home_url = of_ascii ''https://www.xiaohongshu.com''"

text \<open>
  The messages of lines 58 and 77 (``initial visit of the home page timed out'',
  ``verifying the login state timed out'').
\<close>

definition init_goto_error :: "rat \<Rightarrow> js_error" where
  "init_goto_error operationTimeout =
     [Text ([0x521D, 0x59CB, 0x5316, 0x8BBF, 0x95EE, 0x4E3B, 0x9875, 0x8D85, 0x65F6] @ of_ascii '' (''),
      Number operationTimeout, Text (of_ascii ''ms)'')]"

definition init_verify_error :: "rat \<Rightarrow> js_error" where
  "init_verify_error operationTimeout =
     [Text ([0x9A8C, 0x8BC1, 0x767B, 0x5F55, 0x72B6, 0x6001, 0x8D85, 0x65F6] @ of_ascii '' (''),
      Number operationTimeout, Text (of_ascii ''ms)'')]"

definition not_logged_in :: js_error where
  "not_logged_in = [Text (of_ascii ''Not logged in'')]"

definition page_not_initialized :: js_error where
  "page_not_initialized = [Text (of_ascii ''Page not initialized'')]"

text \<open>\<open>initialize\<close>, lines 39 to 80.\<close>

definition initialize :: "init_env \<Rightarrow> rat option \<Rightarrow> (rednote_tools, unit) io" where
  "initialize e timeout =
     bind (reads rt_timeout) (\<lambda>instanceTimeout.
     bind (reads rt_browser) (\<lambda>current.
       if current = None then
         bind (in_auth (getBrowser (i_launch e))) (\<lambda>browser.
         bind (modify (\<lambda>s. s\<lparr>rt_browser := Some browser\<rparr>)) (\<lambda>_.
         bind (await (NewPage browser) (i_newPage e)) (\<lambda>page.
         bind (modify (\<lambda>s. s\<lparr>rt_page := Some page\<rparr>)) (\<lambda>_.
         bind (in_auth getCookies) (\<lambda>cookies.
         bind (if cookies \<noteq> [] then await (AddCookies cookies) (i_addCookies e) else ret ()) (\<lambda>_.
         bind (try_catch
                 (await (Goto home_url (or_default timeout instanceTimeout)) (i_goto e))
                 (\<lambda>error. throw (init_goto_error (or_default timeout instanceTimeout)))) (\<lambda>_.
           try_catch
             (bind (await Evaluate (i_loggedIn e)) (\<lambda>isLoggedIn.
                if \<not> isLoggedIn then throw not_logged_in else ret ()))
             (\<lambda>error.
                if error = not_logged_in then throw error
                else throw (init_verify_error (or_default timeout instanceTimeout))))))))))
       else ret ()))"

text \<open>\<open>cleanup\<close>, lines 82 to 89: the browser is closed; page and context are not closed apart.\<close>

definition cleanup :: "(rednote_tools, unit) io" where
  "cleanup =
     bind (reads rt_browser) (\<lambda>browser.
       case browser of
         Some b \<Rightarrow>
           bind (emit (CloseBrowser b)) (\<lambda>_.
             modify (\<lambda>s. s\<lparr>rt_browser := None, rt_page := None\<rparr>))
       | None \<Rightarrow> ret ())"

subsection \<open>\<open>searchNotes\<close>\<close>

text \<open>The interface \<open>Note\<close>, lines 6 to 15 (the extraction of line 186 sets no \<open>tags\<close>).\<close>

record red_note =
  n_title :: js_string
  n_content :: js_string
  n_url :: js_string
  n_author :: js_string
  n_likes :: int
  n_collects :: int
  n_comments :: int

text \<open>
  What the page does while one result item is processed, lines 146 to 229: the outcome of
  each call of the \<open>try\<close> block, then of each call of the \<open>catch\<close> block. The
  extraction resolves with a note or with \<open>null\<close>.
\<close>

record item_env =
  it_click :: "unit outcome"
  it_open :: "unit outcome"
  it_extract :: "red_note option outcome"
  it_find :: "bool outcome"
  it_click_close :: "unit outcome"
  it_detach :: "unit outcome"
  it_rec_find :: "bool outcome"
  it_rec_click :: "unit outcome"
  it_rec_detach :: "unit outcome"

text \<open>
  The outcomes of the calls of \<open>searchNotes\<close> outside the loop; the list that \<open>$$\<close>
  resolves with is the list of result items, each with what the page does for it.
\<close>

record search_env =
  s_init :: init_env
  s_goto :: "unit outcome"
  s_container :: "unit outcome"
  s_items :: "item_env list outcome"

text \<open>
  \<open>encodeURIComponent\<close>: a code unit among the letters, the digits and \<open>- _ . ! ~ * ' ( )\<close>
  stays; any other code point is written as the bytes of its UTF-8 encoding, each as \<open>%\<close> and
  two upper-case hexadecimal digits. A surrogate that is not part of a pair makes it throw a
  \<open>URIError\<close>: the value \<open>None\<close>.
\<close>

definition uri_unescaped :: "nat \<Rightarrow> bool" where
  "uri_unescaped c =
     (48 \<le> c \<and> c \<le> 57 \<or> 65 \<le> c \<and> c \<le> 90 \<or> 97 \<le> c \<and> c \<le> 122
      \<or> c \<in> set (of_ascii ''-_.!~*'' @ [39] @ of_ascii ''()''))"

definition utf8 :: "nat \<Rightarrow> nat list" where
  "utf8 cp =
     (if cp < 0x80 then [cp]
      else if cp < 0x800 then [0xC0 + cp div 64, 0x80 + cp mod 64]
      else if cp < 0x10000 then [0xE0 + cp div 4096, 0x80 + cp div 64 mod 64, 0x80 + cp mod 64]
      else [0xF0 + cp div 262144, 0x80 + cp div 4096 mod 64, 0x80 + cp div 64 mod 64,
            0x80 + cp mod 64])"

definition hex_digit :: "nat \<Rightarrow> nat" where
  "hex_digit n = (if n < 10 then 48 + n else 55 + n)"

definition percent :: "nat list \<Rightarrow> js_string" where
  "percent bytes = concat (map (\<lambda>b. [37, hex_digit (b div 16), hex_digit (b mod 16)]) bytes)"

fun encodeURIComponent :: "js_string \<Rightarrow> js_string option" where
  "encodeURIComponent [] = Some []"
| "encodeURIComponent (c # cs) =
     (if uri_unescaped c then map_option ((#) c) (encodeURIComponent cs)
      else if c < 0xD800 \<or> 0xDFFF < c then
        map_option ((@) (percent (utf8 c))) (encodeURIComponent cs)
      else if 0xDC00 \<le> c then None
      else (case cs of
              [] \<Rightarrow> None
            | d # ds \<Rightarrow>
                if 0xDC00 \<le> d \<and> d \<le> 0xDFFF then
                  map_option ((@) (percent (utf8 (0x10000 + (c - 0xD800) * 0x400 + (d - 0xDC00)))))
                    (encodeURIComponent ds)
                else None))"

definition uri_error :: js_error where
  "uri_error = [Text (of_ascii ''URI malformed'')]"

definition search_url :: "js_string \<Rightarrow> js_string" where
  "search_url encoded =
     of_ascii ''https://www.xiaohongshu.com/search_result?keyword='' @ encoded"

definition feeds_container :: js_string where
  "feeds_container = of_ascii ''.feeds-container''"

definition note_items :: js_string where
  "note_items = of_ascii ''.feeds-container .note-item''"

definition note_container :: js_string where
  "note_container = of_ascii ''#noteContainer''"

definition close_circle :: js_string where
  "close_circle = of_ascii ''.close-circle''"

text \<open>
  The messages of lines 125 and 135 (``navigating to the search page timed out'', ``loading
  the search results timed out'').
\<close>

definition search_goto_error :: "rat \<Rightarrow> js_error" where
  "search_goto_error operationTimeout =
     [Text ([0x5BFC, 0x822A, 0x5230, 0x641C, 0x7D22, 0x9875, 0x9762, 0x8D85, 0x65F6] @ of_ascii '' (''),
      Number operationTimeout, Text (of_ascii ''ms)'')]"

definition search_results_error :: "rat \<Rightarrow> js_error" where
  "search_results_error operationTimeout =
     [Text ([0x641C, 0x7D22, 0x7ED3, 0x679C, 0x52A0, 0x8F7D, 0x8D85, 0x65F6] @ of_ascii '' (''),
      Number operationTimeout, Text (of_ascii ''ms)'')]"

text \<open>
  The loop runs on the object and the local array \<open>notes\<close>; a pushed note stays in the
  array when a later call of the same iteration throws.
\<close>

type_synonym search_frame = "rednote_tools \<times> red_note list"

text \<open>Lines 206 to 216 and 219 to 229: close the note dialog if its close button is there.\<close>

definition close_dialog :: "bool outcome \<Rightarrow> unit outcome \<Rightarrow> unit outcome \<Rightarrow> (search_frame, unit) io" where
  "close_dialog found click detach =
     bind (await (Query close_circle) found) (\<lambda>closeButton.
       if closeButton then
         bind (await Click click) (\<lambda>_.
           await (WaitForSelector note_container Detached 30000) detach)
       else ret ())"

text \<open>Lines 147 to 216: the \<open>try\<close> block of one iteration.\<close>

definition item_try :: "nat \<Rightarrow> item_env \<Rightarrow> (search_frame, unit) io" where
  "item_try i e =
     bind (await (ClickCover i) (it_click e)) (\<lambda>_.
     bind (await (WaitForSelector note_container Visible 30000) (it_open e)) (\<lambda>_.
     bind (emit (RandomDelay (1 / 2) (3 / 2))) (\<lambda>_.
     bind (await Evaluate (it_extract e)) (\<lambda>note.
     bind (case note of
             Some n \<Rightarrow> modify (\<lambda>(tools, notes). (tools, notes @ [n]))
           | None \<Rightarrow> ret ()) (\<lambda>_.
     bind (emit (RandomDelay (1 / 2) 1)) (\<lambda>_.
       close_dialog (it_find e) (it_click_close e) (it_detach e)))))))"

text \<open>Lines 146 to 233: one iteration, with its \<open>catch\<close> and \<open>finally\<close>.\<close>

definition process_item :: "nat \<Rightarrow> item_env \<Rightarrow> (search_frame, unit) io" where
  "process_item i e =
     try_finally
       (try_catch (item_try i e)
          (\<lambda>error. close_dialog (it_rec_find e) (it_rec_click e) (it_rec_detach e)))
       (emit (RandomDelay (1 / 2) (3 / 2)))"

text \<open>Lines 144 to 234: \<open>for (let i = 0; i < Math.min(noteItems.length, limit); i++)\<close>.\<close>

function process_notes :: "rat \<Rightarrow> item_env list \<Rightarrow> nat \<Rightarrow> (search_frame, unit) io" where
  "process_notes limit noteItems i s =
     (if of_nat i < min (of_nat (length noteItems)) limit then
        bind (process_item i (noteItems ! i))
          (\<lambda>_ s'. process_notes limit noteItems (i + 1) s') s
      else ret () s)"
  by pat_completeness auto
termination
  by (relation "measure (\<lambda>(limit, noteItems, i, s). length noteItems - i)") auto

text \<open>
  Lines 118 to 136: open the search page and wait for the results. The address is built
  inside the first \<open>try\<close>, so a \<open>URIError\<close> is caught there as well.
\<close>

definition search_open :: "search_env \<Rightarrow> js_string \<Rightarrow> rat \<Rightarrow> (search_frame, unit) io" where
  "search_open e keywords operationTimeout =
     bind (try_catch
             (bind (case encodeURIComponent keywords of
                      None \<Rightarrow> throw uri_error
                    | Some encoded \<Rightarrow> ret encoded) (\<lambda>encoded.
                await (Goto (search_url encoded) operationTimeout) (s_goto e)))
             (\<lambda>error. throw (search_goto_error operationTimeout))) (\<lambda>_.
       try_catch
         (await (WaitForSelector feeds_container Visible operationTimeout) (s_container e))
         (\<lambda>error. throw (search_results_error operationTimeout)))"

text \<open>Lines 118 to 237: the body of the outer \<open>try\<close> block.\<close>

definition search_body :: "search_env \<Rightarrow> js_string \<Rightarrow> rat \<Rightarrow> rat \<Rightarrow> (search_frame, red_note list) io" where
  "search_body e keywords limit operationTimeout =
     bind (search_open e keywords operationTimeout) (\<lambda>_.
     bind (await (QueryAll note_items) (s_items e)) (\<lambda>noteItems.
     bind (process_notes limit noteItems 0) (\<lambda>_.
       reads snd)))"

text \<open>A workflow's local frame: it starts with an empty \<open>notes\<close>, which is dropped at the end.\<close>

definition with_notes :: "(search_frame, 'a) io \<Rightarrow> (rednote_tools, 'a) io" where
  "with_notes m s = (case m (s, []) of (r, (t, notes), tr) \<Rightarrow> (r, t, tr))"

text \<open>\<open>searchNotes\<close>, lines 111 to 241. The default of \<open>limit\<close> is 10.\<close>

definition searchNotes ::
  "search_env \<Rightarrow> js_string \<Rightarrow> rat option \<Rightarrow> rat option \<Rightarrow> (rednote_tools, red_note list) io" where
  "searchNotes e keywords limit timeout =
     bind (reads rt_timeout) (\<lambda>instanceTimeout.
     bind (initialize (s_init e) (Some (or_default timeout instanceTimeout))) (\<lambda>_.
     bind (reads rt_page) (\<lambda>page.
       if page = None then throw page_not_initialized
       else
         try_finally
           (with_notes
              (search_body e keywords (case limit of None \<Rightarrow> 10 | Some l \<Rightarrow> l)
                 (or_default timeout instanceTimeout)))
           cleanup)))"

subsection \<open>\<open>getNoteContent\<close>\<close>

text \<open>
  Modelled from the spec: the result type \<open>NoteDetail\<close> of \<open>GetNoteDetail\<close>
  (\<open>src/tools/noteDetail.ts\<close> is not among the sources). The code reads its \<open>title\<close> and
  writes its \<open>url\<close>; whatever else it holds is the record's extension.
\<close>

record note_detail =
  nd_title :: js_string
  nd_url :: js_string

record content_env =
  c_init :: init_env
  c_goto :: "unit outcome"
  c_detail :: "note_detail outcome"

text \<open>The message of line 254 (``opening the note page timed out'').\<close>

definition note_goto_error :: "rat \<Rightarrow> js_error" where
  "note_goto_error operationTimeout =
     [Text ([0x6253, 0x5F00, 0x7B14, 0x8BB0, 0x9875, 0x9762, 0x8D85, 0x65F6] @ of_ascii '' (''),
      Number operationTimeout, Text (of_ascii ''ms)'')]"

text \<open>
  \<open>GetNoteDetail(page, operationTimeout)\<close> is a call like those of the driver: it is
  logged with the timeout it is given, and resolves with a note or rejects.
\<close>

definition GetNoteDetail :: "rat \<Rightarrow> note_detail outcome \<Rightarrow> (rednote_tools, note_detail) io" where
  "GetNoteDetail operationTimeout out =
     await (NoteDetailCall operationTimeout) out"

text \<open>Lines 250 to 260: the body of the \<open>try\<close> block.\<close>

definition content_body :: "content_env \<Rightarrow> js_string \<Rightarrow> rat \<Rightarrow> (rednote_tools, note_detail) io" where
  "content_body e url operationTimeout =
     bind (try_catch
             (await (Goto (extractRedBookUrl url) operationTimeout) (c_goto e))
             (\<lambda>error. throw (note_goto_error operationTimeout))) (\<lambda>_.
     bind (GetNoteDetail operationTimeout (c_detail e)) (\<lambda>note.
       ret (note\<lparr>nd_url := url\<rparr>)))"

text \<open>\<open>getNoteContent\<close>, lines 243 to 267.\<close>

definition getNoteContent ::
  "content_env \<Rightarrow> js_string \<Rightarrow> rat option \<Rightarrow> (rednote_tools, note_detail) io" where
  "getNoteContent e url timeout =
     bind (reads rt_timeout) (\<lambda>instanceTimeout.
     bind (initialize (c_init e) (Some (or_default timeout instanceTimeout))) (\<lambda>_.
     bind (reads rt_page) (\<lambda>page.
       if page = None then throw page_not_initialized
       else
         try_finally
           (try_catch (content_body e url (or_default timeout instanceTimeout))
              (\<lambda>error. throw error))
           cleanup)))"

subsection \<open>\<open>getNoteComments\<close>\<close>

record comment =
  cm_author :: js_string
  cm_content :: js_string
  cm_likes :: int
  cm_time :: js_string

record comments_env =
  m_init :: init_env
  m_goto :: "unit outcome"
  m_list :: "unit outcome"
  m_comments :: "comment list outcome"

definition comment_list :: js_string where
  "comment_list = of_ascii ''[role=\"dialog\"] [role=\"list\"]''"

text \<open>
  The messages of lines 279 and 289 (``opening the comments page timed out'', ``loading the
  comments timed out'').
\<close>

definition comments_goto_error :: "rat \<Rightarrow> js_error" where
  "comments_goto_error operationTimeout =
     [Text ([0x6253, 0x5F00, 0x8BC4, 0x8BBA, 0x9875, 0x9762, 0x8D85, 0x65F6] @ of_ascii '' (''),
      Number operationTimeout, Text (of_ascii ''ms)'')]"

definition comments_load_error :: "rat \<Rightarrow> js_error" where
  "comments_load_error operationTimeout =
     [Text ([0x8BC4, 0x8BBA, 0x52A0, 0x8F7D, 0x8D85, 0x65F6] @ of_ascii '' (''),
      Number operationTimeout, Text (of_ascii ''ms)'')]"

text \<open>Lines 276 to 310: the body of the \<open>try\<close> block.\<close>

definition comments_body :: "comments_env \<Rightarrow> js_string \<Rightarrow> rat \<Rightarrow> (rednote_tools, comment list) io" where
  "comments_body e url operationTimeout =
     bind (try_catch
             (await (Goto url operationTimeout) (m_goto e))
             (\<lambda>error. throw (comments_goto_error operationTimeout))) (\<lambda>_.
     bind (try_catch
             (await (WaitForSelector comment_list Visible operationTimeout) (m_list e))
             (\<lambda>error. throw (comments_load_error operationTimeout))) (\<lambda>_.
       await Evaluate (m_comments e)))"

text \<open>\<open>getNoteComments\<close>, lines 269 to 317.\<close>

definition getNoteComments ::
  "comments_env \<Rightarrow> js_string \<Rightarrow> rat option \<Rightarrow> (rednote_tools, comment list) io" where
  "getNoteComments e url timeout =
     bind (reads rt_timeout) (\<lambda>instanceTimeout.
     bind (initialize (m_init e) (Some (or_default timeout instanceTimeout))) (\<lambda>_.
     bind (reads rt_page) (\<lambda>page.
       if page = None then throw page_not_initialized
       else
         try_finally
           (try_catch (comments_body e url (or_default timeout instanceTimeout))
              (\<lambda>error. throw error))
           cleanup)))"

section \<open>The tool layer (\<open>src/cli.ts\<close>)\<close>











text \<open>
  Line 42: \<open>const tools = new RedNoteTools(timeout)\<close>, for a configured timeout that is
  finite, over the persisted cookies.
\<close>

definition cli_tools :: "rat \<Rightarrow> cookie list \<Rightarrow> rednote_tools" where
  "cli_tools timeout file = new_rednote_tools (Some timeout) file"





section \<open>Vocabulary of the properties\<close>

text \<open>Every call that a method makes, from any state, satisfies \<open>P\<close>.\<close>

definition emits_only :: "(event \<Rightarrow> bool) \<Rightarrow> ('s, 'a) io \<Rightarrow> bool" where
  "emits_only P m = (\<forall>s. \<forall>ev \<in> set (calls (m s)). P ev)"

text \<open>Every value that a method returns satisfies \<open>Q\<close>.\<close>

definition returns_only :: "('a \<Rightarrow> bool) \<Rightarrow> ('s, 'a) io \<Rightarrow> bool" where
  "returns_only Q m = (\<forall>s x. result (m s) = Inr x \<longrightarrow> Q x)"

text \<open>A method leaves the reading \<open>f\<close> of the state as it was.\<close>

definition keeps :: "('s \<Rightarrow> 'b) \<Rightarrow> ('s, 'a) io \<Rightarrow> bool" where
  "keeps f m = (\<forall>s. f (final (m s)) = f s)"

definition budgeted :: "rat \<Rightarrow> event \<Rightarrow> bool" where
  "budgeted timeout ev =
     (case ev of
        Goto url t \<Rightarrow> url = explore_url \<and> t = sub_timeout timeout
      | WaitForSelector sel st t \<Rightarrow>
          (sel = login_container \<or> sel = qrcode_img) \<and> t = sub_timeout timeout
          \<or> sel = sidebar_selector \<and> t = timeout
      | _ \<Rightarrow> True)"

definition is_new_context :: "event \<Rightarrow> bool" where
  "is_new_context ev = (case ev of NewContext b \<Rightarrow> True | _ \<Rightarrow> False)"

definition is_sleep :: "event \<Rightarrow> bool" where
  "is_sleep ev = (case ev of Sleep d \<Rightarrow> True | _ \<Rightarrow> False)"

definition is_close :: "event \<Rightarrow> bool" where
  "is_close ev =
     (case ev of ClosePage p \<Rightarrow> True | CloseContext c \<Rightarrow> True | CloseBrowser b \<Rightarrow> True
      | _ \<Rightarrow> False)"

definition close_calls :: "auth_manager \<Rightarrow> event list" where
  "close_calls s =
     (case am_page s of Some p \<Rightarrow> [ClosePage p] | None \<Rightarrow> []) @
     (case am_context s of Some c \<Rightarrow> [CloseContext c] | None \<Rightarrow> [])"

definition env_qr :: attempt_env where
  "env_qr = \<lparr>r_newContext = Returns 2, r_newPage = Returns 3, r_addCookies = Returns (),
     r_goto = Returns (), r_sidebar = Returns False, r_probe = Returns False,
     r_dialog = Returns (), r_qrcode = Returns (), r_human = Returns (),
     r_verify = Returns True,
     r_cookies = Returns [Cookie (of_ascii ''web_session'') (of_ascii ''abc'')]\<rparr>"

text \<open>Three attempts that fail at the dialog, at the QR code and at the human wait.\<close>

definition env_timeouts :: "nat \<Rightarrow> attempt_env" where
  "env_timeouts k =
     \<lparr>r_newContext = Returns (10 + k), r_newPage = Returns (20 + k), r_addCookies = Returns (),
      r_goto = Returns (), r_sidebar = Returns False, r_probe = Returns False,
      r_dialog = (if k = 0 then Throws (of_ascii ''Timeout'') else Returns ()),
      r_qrcode = (if k = 1 then Throws (of_ascii ''Timeout'') else Returns ()),
      r_human = (if k = 2 then Throws (of_ascii ''Timeout'') else Returns ()),
      r_verify = Returns True, r_cookies = Returns []\<rparr>"

definition probe_positive :: "attempt_env \<Rightarrow> bool" where
  "probe_positive e = (r_sidebar e = Returns True \<and> r_probe e = Returns True)"

definition replays :: "attempt_env \<Rightarrow> handle \<Rightarrow> handle \<Rightarrow> cookie list \<Rightarrow> bool" where
  "replays e c p cs =
     (r_newContext e = Returns c \<and> r_newPage e = Returns p \<and> r_addCookies e = Returns ()
      \<and> r_goto e = Returns () \<and> probe_positive e \<and> r_cookies e = Returns cs)"

definition replay_calls :: "rat \<Rightarrow> handle \<Rightarrow> handle \<Rightarrow> cookie list \<Rightarrow> cookie list \<Rightarrow> event list" where
  "replay_calls timeout b c file cs =
     [Launch, NewContext b, NewPage c, LoadCookies]
     @ (if file = [] then [] else [AddCookies file])
     @ [Goto explore_url (sub_timeout timeout), Query sidebar_selector, Evaluate,
        ContextCookies, SaveCookies cs]"

definition is_selector_wait :: "event \<Rightarrow> bool" where
  "is_selector_wait ev = (case ev of WaitForSelector sel st t \<Rightarrow> True | _ \<Rightarrow> False)"

text \<open>
  A browser in which the persisted session is valid: the landing page shows the identity
  marker, and the login dialog never appears.
\<close>

definition env_valid :: attempt_env where
  "env_valid =
     \<lparr>r_newContext = Returns 2, r_newPage = Returns 3, r_addCookies = Returns (),
      r_goto = Returns (), r_sidebar = Returns True, r_probe = Returns True,
      r_dialog = Throws (of_ascii ''Timeout''), r_qrcode = Throws (of_ascii ''Timeout''),
      r_human = Returns (), r_verify = Returns True,
      r_cookies = Returns [Cookie (of_ascii ''web_session'') (of_ascii ''abc''),
                           Cookie (of_ascii ''a1'') (of_ascii ''xyz'')]\<rparr>"

definition persisted :: "cookie list" where
  "persisted = [Cookie (of_ascii ''web_session'') (of_ascii ''abc'')]"

text \<open>
  A call of \<open>initialize\<close> that gets through: no browser is held yet, a browser \<open>b\<close> is
  obtained (launched, or the one the \<open>AuthManager\<close> holds), a page \<open>p\<close> is opened, the home
  page loads and shows the identity marker.
\<close>

definition init_ok :: "init_env \<Rightarrow> rednote_tools \<Rightarrow> handle \<Rightarrow> handle \<Rightarrow> bool" where
  "init_ok e s b p =
     (rt_browser s = None
      \<and> (case am_browser (authManager s) of None \<Rightarrow> i_launch e = Returns b | Some b' \<Rightarrow> b' = b)
      \<and> i_newPage e = Returns p \<and> i_addCookies e = Returns ()
      \<and> i_goto e = Returns () \<and> i_loggedIn e = Returns True)"

definition init_calls :: "rednote_tools \<Rightarrow> handle \<Rightarrow> rat \<Rightarrow> event list" where
  "init_calls s b operationTimeout =
     (if am_browser (authManager s) = None then [Launch] else [])
     @ [NewPage b, LoadCookies]
     @ (if cookie_file (authManager s) = [] then [] else [AddCookies (cookie_file (authManager s))])
     @ [Goto home_url operationTimeout, Evaluate]"

definition after_init :: "rednote_tools \<Rightarrow> handle \<Rightarrow> handle \<Rightarrow> rednote_tools" where
  "after_init s b p =
     s\<lparr>authManager := (authManager s)\<lparr>am_browser := Some b\<rparr>, rt_browser := Some b, rt_page := Some p\<rparr>"

text \<open>
  The frame that the three workflows share, lines 112 to 117 and 238 to 240 of \<open>searchNotes\<close>
  and the like lines of the other two: the operation timeout, \<open>initialize\<close>, the test of the
  page, then the body in a \<open>try\<close> whose \<open>finally\<close> block is \<open>cleanup\<close>.
\<close>

definition workflow ::
  "init_env \<Rightarrow> rat option \<Rightarrow> (rat \<Rightarrow> (rednote_tools, 'a) io) \<Rightarrow> (rednote_tools, 'a) io" where
  "workflow ie timeout body =
     bind (reads rt_timeout) (\<lambda>instanceTimeout.
     bind (initialize ie (Some (or_default timeout instanceTimeout))) (\<lambda>_.
     bind (reads rt_page) (\<lambda>page.
       if page = None then throw page_not_initialized
       else try_finally (body (or_default timeout instanceTimeout)) cleanup)))"

text \<open>
  The object as \<open>initialize\<close> leaves it in a call with the given per-call timeout, and the
  calls that enter the \<open>try\<close> block: \<open>initialize\<close> returns and there is a page.
\<close>

definition initialized :: "init_env \<Rightarrow> rat option \<Rightarrow> rednote_tools \<Rightarrow> rednote_tools" where
  "initialized ie timeout s = final (initialize ie (Some (or_default timeout (rt_timeout s))) s)"

definition enters_try :: "init_env \<Rightarrow> rat option \<Rightarrow> rednote_tools \<Rightarrow> bool" where
  "enters_try ie timeout s =
     (result (initialize ie (Some (or_default timeout (rt_timeout s))) s) = Inr ()
      \<and> rt_page (initialized ie timeout s) \<noteq> None)"

text \<open>The note dialog closes: there is no close button, or the click and the wait succeed.\<close>

definition dialog_closes :: "bool outcome \<Rightarrow> unit outcome \<Rightarrow> unit outcome \<Rightarrow> bool" where
  "dialog_closes found click detach =
     (found = Returns False \<or> found = Returns True \<and> click = Returns () \<and> detach = Returns ())"

text \<open>
  The note that an item adds to \<open>notes\<close>: the one extracted, when the click, the wait for
  the note and the extraction succeed and the extraction is not \<open>null\<close>.
\<close>

definition item_note :: "item_env \<Rightarrow> red_note list" where
  "item_note e =
     (if it_click e = Returns () \<and> it_open e = Returns ()
      then (case it_extract e of Returns (Some n) \<Rightarrow> [n] | _ \<Rightarrow> [])
      else [])"

definition try_ok :: "item_env \<Rightarrow> bool" where
  "try_ok e =
     (it_click e = Returns () \<and> it_open e = Returns () \<and> (\<exists>x. it_extract e = Returns x)
      \<and> dialog_closes (it_find e) (it_click_close e) (it_detach e))"

definition item_survives :: "item_env \<Rightarrow> bool" where
  "item_survives e =
     (try_ok e \<or> dialog_closes (it_rec_find e) (it_rec_click e) (it_rec_detach e))"

definition sample_note :: "nat \<Rightarrow> red_note" where
  "sample_note k =
     \<lparr>n_title = of_ascii ''note '' @ [48 + k], n_content = of_ascii ''text'',
      n_url = of_ascii ''https://www.xiaohongshu.com/explore/'' @ [48 + k],
      n_author = of_ascii ''author'', n_likes = int k, n_collects = 0, n_comments = 0\<rparr>"

text \<open>An item whose note opens, is extracted and closes.\<close>

definition item_fine :: "nat \<Rightarrow> item_env" where
  "item_fine k =
     \<lparr>it_click = Returns (), it_open = Returns (), it_extract = Returns (Some (sample_note k)),
      it_find = Returns True, it_click_close = Returns (), it_detach = Returns (),
      it_rec_find = Returns True, it_rec_click = Returns (), it_rec_detach = Returns ()\<rparr>"

text \<open>The extraction throws; the \<open>catch\<close> block closes the dialog.\<close>

definition item_extract_throws :: item_env where
  "item_extract_throws =
     (item_fine 2)\<lparr>it_extract := Throws (of_ascii ''Execution context was destroyed'')\<rparr>"

text \<open>
  The note is extracted, then the dialog does not detach in time; the \<open>catch\<close> block
  clicks again and the dialog closes.
\<close>

definition item_close_throws :: item_env where
  "item_close_throws = (item_fine 2)\<lparr>it_detach := Throws (of_ascii ''Timeout 30000ms exceeded'')\<rparr>"

text \<open>The extraction throws, and in the \<open>catch\<close> block the dialog does not detach in time.\<close>

definition item_recovery_throws :: item_env where
  "item_recovery_throws =
     (item_fine 2)\<lparr>it_extract := Throws (of_ascii ''Execution context was destroyed''),
                   it_rec_detach := Throws (of_ascii ''Timeout 30000ms exceeded'')\<rparr>"

text \<open>Twenty result items, the third of which is the given one.\<close>

definition twenty :: "item_env \<Rightarrow> item_env list" where
  "twenty e = [item_fine 0, item_fine 1, e, item_fine 3, item_fine 4] @ replicate 15 (item_fine 9)"

definition init_fine :: init_env where
  "init_fine =
     \<lparr>i_launch = Returns 5, i_newPage = Returns 6, i_addCookies = Returns (),
      i_goto = Returns (), i_loggedIn = Returns True\<rparr>"

definition env_search :: "item_env list \<Rightarrow> search_env" where
  "env_search items =
     \<lparr>s_init = init_fine, s_goto = Returns (), s_container = Returns (),
      s_items = Returns items\<rparr>"

definition tools0 :: rednote_tools where
  "tools0 = new_rednote_tools None persisted"

text \<open>An object that holds a browser and a page already: \<open>initialize\<close> has nothing to do.\<close>

definition tools_held :: rednote_tools where
  "tools_held = tools0\<lparr>rt_browser := Some 8, rt_page := Some 9\<rparr>"

text \<open>The calls that close a page or a context.\<close>

definition closes_part :: "event \<Rightarrow> bool" where
  "closes_part ev = (case ev of ClosePage h \<Rightarrow> True | CloseContext h \<Rightarrow> True | _ \<Rightarrow> False)"

text \<open>
  What the \<open>finally\<close> block of a workflow leaves, once \<open>initialize\<close> got through: the last
  call closes the browser, it is the only closing call, and the fields are reset.
\<close>

definition browser_closed_last ::
  "handle \<Rightarrow> (js_error + 'a) \<times> rednote_tools \<times> event list \<Rightarrow> bool" where
  "browser_closed_last b r =
     (calls r \<noteq> [] \<and> last (calls r) = CloseBrowser b
      \<and> filter is_close (calls r) = [CloseBrowser b]
      \<and> rt_browser (final r) = None \<and> rt_page (final r) = None)"

text \<open>Sample runs of the note and of the comments workflow.\<close>

definition env_content :: "note_detail outcome \<Rightarrow> content_env" where
  "env_content d = \<lparr>c_init = init_fine, c_goto = Returns (), c_detail = d\<rparr>"

definition env_comments :: "unit outcome \<Rightarrow> comments_env" where
  "env_comments g =
     \<lparr>m_init = init_fine, m_goto = g, m_list = Returns (), m_comments = Returns []\<rparr>"

definition detail_66aa :: note_detail where
  "detail_66aa = \<lparr>nd_title = of_ascii ''tea'',
     nd_url = of_ascii ''https://www.xiaohongshu.com/explore/66aa''\<rparr>"

text \<open>The addresses that a run navigates to, in order.\<close>

definition goto_targets :: "event list \<Rightarrow> js_string list" where
  "goto_targets evs = concat (map (\<lambda>ev. case ev of Goto u t \<Rightarrow> [u] | _ \<Rightarrow> []) evs)"










text \<open>The object that \<open>cli.ts\<close> makes under a configured timeout of 45000, and a note.\<close>

definition tools_45000 :: rednote_tools where
  "tools_45000 = cli_tools 45000 persisted"


section \<open>Rounding to a double\<close>

lemma round_half_even_ge: "\<lfloor>x\<rfloor> \<le> round_half_even x"
  by (simp add: round_half_even_def Let_def)

lemma round_half_even_grid:
  assumes "of_int K \<le> x"
  shows "K \<le> round_half_even x"
proof -
  from assms have "K \<le> \<lfloor>x\<rfloor>" by (simp add: le_floor_iff)
  with round_half_even_ge [of x] show ?thesis by (rule order_trans [rotated])
qed

lemma round_half_even_int: "round_half_even (of_int k) = k"
  by (simp add: round_half_even_def Let_def)

lemma round_half_even_near:
  "\<bar>of_int (round_half_even x) - x\<bar> \<le> 1 / 2"
proof -
  have "of_int \<lfloor>x\<rfloor> \<le> x" "x < of_int \<lfloor>x\<rfloor> + 1"
    by linarith+
  then show ?thesis
    unfolding round_half_even_def Let_def by (auto simp: abs_le_iff)
qed

lemma binade_lower:
  assumes "0 < a"
  shows "2 powi (binade a) \<le> a"
proof (cases "1 \<le> a")
  case True
  then have f: "0 < \<lfloor>a\<rfloor>" by simp
  from bitlen_bounds [OF f] have "2 ^ nat (bitlen \<lfloor>a\<rfloor> - 1) \<le> \<lfloor>a\<rfloor>" by simp
  then have "(2::rat) ^ nat (bitlen \<lfloor>a\<rfloor> - 1) \<le> of_int \<lfloor>a\<rfloor>"
    by (metis of_int_le_iff of_int_numeral of_int_power)
  also have "\<dots> \<le> a" by simp
  finally have "(2::rat) ^ nat (bitlen \<lfloor>a\<rfloor> - 1) \<le> a" .
  moreover have "0 \<le> bitlen \<lfloor>a\<rfloor> - 1"
    using f by (simp add: bitlen_def floorlog_def)
  ultimately show ?thesis
    using True by (simp add: binade_def power_int_def)
next
  case False
  let ?c = "\<lceil>1 / a\<rceil>"
  let ?n = "bitlen (?c - 1)"
  have "1 < 1 / a" using False assms by simp
  then have c: "0 < ?c - 1" by (simp add: less_ceiling_iff)
  from bitlen_bounds [OF c] have "?c - 1 < 2 ^ nat ?n" by simp
  then have "?c \<le> 2 ^ nat ?n" by simp
  then have "of_int ?c \<le> (2::rat) ^ nat ?n"
    by (metis of_int_le_iff of_int_numeral of_int_power)
  moreover have "1 / a \<le> of_int ?c" by simp
  ultimately have "1 / a \<le> (2::rat) ^ nat ?n" by linarith
  then have "1 / (2::rat) ^ nat ?n \<le> a"
    using assms by (simp add: field_simps)
  moreover have "0 < ?n"
    using c bitlen_eq_zero_iff [of "?c - 1"] bitlen_nonneg [of "?c - 1"] by linarith
  ultimately show ?thesis
    using False by (simp add: binade_def power_int_def power_one_over inverse_eq_divide)
qed


lemma binade_upper:
  assumes "0 < a"
  shows "a < 2 powi (binade a + 1)"
proof (cases "1 \<le> a")
  case True
  then have f: "0 < \<lfloor>a\<rfloor>" by simp
  from bitlen_bounds [OF f] have "\<lfloor>a\<rfloor> + 1 \<le> 2 ^ nat (bitlen \<lfloor>a\<rfloor>)" by simp
  then have "of_int (\<lfloor>a\<rfloor> + 1) \<le> (2::rat) ^ nat (bitlen \<lfloor>a\<rfloor>)"
    by (metis of_int_le_iff of_int_numeral of_int_power)
  moreover have "a < of_int (\<lfloor>a\<rfloor> + 1)" by linarith
  ultimately have "a < (2::rat) ^ nat (bitlen \<lfloor>a\<rfloor>)" by linarith
  moreover have "0 \<le> bitlen \<lfloor>a\<rfloor>" by (rule bitlen_nonneg)
  ultimately show ?thesis
    using True by (simp add: binade_def power_int_def)
next
  case False
  let ?c = "\<lceil>1 / a\<rceil>"
  let ?n = "bitlen (?c - 1)"
  have "1 < 1 / a" using False assms by simp
  then have c: "0 < ?c - 1" by (simp add: less_ceiling_iff)
  have n: "0 < ?n"
    using c bitlen_eq_zero_iff [of "?c - 1"] bitlen_nonneg [of "?c - 1"] by linarith
  from bitlen_bounds [OF c] have "2 ^ nat (?n - 1) \<le> ?c - 1" by simp
  then have "(2::rat) ^ nat (?n - 1) \<le> of_int (?c - 1)"
    by (metis of_int_le_iff of_int_numeral of_int_power)
  moreover have "of_int (?c - 1) < 1 / a" by linarith
  ultimately have "(2::rat) ^ nat (?n - 1) < 1 / a" by linarith
  then have lt: "a < 1 / (2::rat) ^ nat (?n - 1)"
    using assms by (simp add: field_simps)
  show ?thesis
  proof (cases "?n = 1")
    case True
    with lt False show ?thesis by (simp add: binade_def)
  next
    case False
    with n have "- ?n + 1 < 0" by simp
    moreover have "nat (?n - 1) = nat (- (- ?n + 1))" by simp
    ultimately show ?thesis
      using lt \<open>\<not> 1 \<le> a\<close>
      by (simp add: binade_def power_int_def power_one_over inverse_eq_divide)
  qed
qed

lemma ulp_pos: "0 < ulp a"
  by (simp add: ulp_def)

lemma round_double_pos:
  "0 < q \<Longrightarrow> round_double q = of_int (round_half_even (q / ulp q)) * ulp q"
  by (simp add: round_double_def)


lemma round_double_grid:
  assumes "0 < q" "of_int K * ulp q \<le> q"
  shows "of_int K * ulp q \<le> round_double q"
proof -
  from assms(2) have "of_int K \<le> q / ulp q"
    using ulp_pos [of q] by (simp add: field_simps)
  then have "K \<le> round_half_even (q / ulp q)" by (rule round_half_even_grid)
  then have "(of_int K :: rat) \<le> of_int (round_half_even (q / ulp q))" by simp
  then show ?thesis
    using ulp_pos [of q] assms(1) by (simp add: round_double_pos)
qed

lemma round_double_exact:
  assumes "0 < q" "q = of_int K * ulp q"
  shows "round_double q = q"
proof -
  have "q / ulp q = of_int K"
    using assms(2) ulp_pos [of q] by (simp add: field_simps)
  then show ?thesis
    using assms by (simp add: round_double_pos round_half_even_int)
qed

lemma round_double_near:
  assumes "0 < q"
  shows "\<bar>round_double q - q\<bar> \<le> ulp q / 2"
proof -
  have "\<bar>of_int (round_half_even (q / ulp q)) - q / ulp q\<bar> * ulp q \<le> 1 / 2 * ulp q"
    using round_half_even_near [of "q / ulp q"] ulp_pos [of q]
    by (intro mult_right_mono) simp_all
  moreover have "\<bar>of_int (round_half_even (q / ulp q)) - q / ulp q\<bar> * ulp q
      = \<bar>round_double q - q\<bar>"
  proof -
    have "(of_int (round_half_even (q / ulp q)) - q / ulp q) * ulp q = round_double q - q"
      using ulp_pos [of q] assms by (simp add: round_double_pos left_diff_distrib)
    then have "\<bar>round_double q - q\<bar>
        = \<bar>of_int (round_half_even (q / ulp q)) - q / ulp q\<bar> * \<bar>ulp q\<bar>"
      by (simp only: abs_mult [symmetric])
    then show ?thesis
      using ulp_pos [of q] by simp
  qed
  ultimately show ?thesis by simp
qed


lemma two_powi_nat: "0 \<le> k \<Longrightarrow> of_int (2 ^ nat k) = (2::rat) powi k"
  by (simp add: power_int_def)

lemma two_powi_add: "(2::rat) powi a * 2 powi b = 2 powi (a + b)"
  by (simp add: power_int_add)

lemma round_double_ge_10000:
  assumes "10000 \<le> q"
  shows "10000 \<le> round_double q"
proof -
  have q: "0 < q" using assms by simp
  let ?j = "max (binade q) (- 1022) - 52"
  show ?thesis
  proof (cases "?j \<le> 4")
    case True
    then have "of_int (625 * 2 ^ nat (4 - ?j)) * ulp q = 625 * ((2::rat) powi (4 - ?j) * 2 powi ?j)"
      by (simp add: ulp_def two_powi_nat [symmetric])
    also have "(2::rat) powi (4 - ?j) * 2 powi ?j = 2 powi 4"
      by (simp only: two_powi_add) simp
    finally have g: "of_int (625 * 2 ^ nat (4 - ?j)) * ulp q = 10000"
      by simp
    from round_double_grid [OF q, of "625 * 2 ^ nat (4 - ?j)"] assms show ?thesis
      unfolding g by simp
  next
    case False
    then have e: "57 \<le> binade q" by simp
    then have u: "ulp q = 2 powi (binade q - 52)" by (simp add: ulp_def max_def)
    have "of_int (2 ^ nat 52) * ulp q = (2::rat) powi 52 * 2 powi (binade q - 52)"
      unfolding u by (subst two_powi_nat) simp_all
    also have "\<dots> = 2 powi (binade q)"
      by (simp only: two_powi_add) simp
    finally have g: "of_int (2 ^ nat 52) * ulp q = 2 powi (binade q)" .
    from round_double_grid [OF q, of "2 ^ nat 52"] binade_lower [OF q]
    have "2 powi (binade q) \<le> round_double q"
      unfolding g by simp
    moreover have "(2::rat) powi 57 \<le> 2 powi (binade q)"
      using e by (intro power_int_increasing) simp_all
    ultimately show ?thesis by (simp add: power_int_def)
  qed
qed

lemma binade_normal:
  assumes "2 powi (- 1022) \<le> q"
  shows "- 1022 \<le> binade q"
proof (rule ccontr)
  assume "\<not> - 1022 \<le> binade q"
  then have "binade q + 1 \<le> - 1022" by simp
  then have "(2::rat) powi (binade q + 1) \<le> 2 powi (- 1022)"
    by (intro power_int_increasing) simp_all
  moreover have "0 < q"
    using assms by (rule less_le_trans [rotated]) simp
  ultimately show False
    using binade_upper [of q] assms by simp
qed

lemma round_double_relative:
  assumes "2 powi (- 1022) \<le> q"
  shows "\<bar>round_double q - q\<bar> \<le> q / 2 ^ 53"
proof -
  have q: "0 < q"
    using assms by (rule less_le_trans [rotated]) simp
  from binade_normal [OF assms] have "ulp q = 2 powi (binade q - 52)"
    by (simp add: ulp_def max_def)
  also have "\<dots> = 2 powi (binade q) * 2 powi (- 52)"
    by (simp only: two_powi_add) simp
  also have "\<dots> \<le> q * 2 powi (- 52)"
    using binade_lower [OF q] by (intro mult_right_mono) simp_all
  finally have "ulp q / 2 \<le> q * 2 powi (- 52) / 2" by simp
  also have "\<dots> = q / 2 ^ 53" by (simp add: power_int_def power_one_over)
  finally show ?thesis
    using round_double_near [OF q] by simp
qed

lemma round_double_nat:
  assumes "n < 2 ^ 53"
  shows "round_double (of_nat n) = of_nat n"
proof (cases "n = 0")
  case True
  then show ?thesis by (simp add: round_double_def)
next
  case False
  let ?q = "of_nat n :: rat"
  have q: "0 < ?q" "1 \<le> ?q" using False by simp_all
  have b: "binade ?q = bitlen (int n) - 1"
    using q by (simp add: binade_def)
  have "bitlen (int n) \<le> 53"
    using assms by (simp add: bitlen_le_iff_power)
  moreover have "0 < bitlen (int n)"
    using False bitlen_eq_zero_iff [of "int n"] bitlen_nonneg [of "int n"] by linarith
  ultimately have e: "0 \<le> binade ?q" "binade ?q \<le> 52"
    unfolding b by simp_all
  then have u: "ulp ?q = 2 powi (binade ?q - 52)" by (simp add: ulp_def max_def)
  have "of_int (int n * 2 ^ nat (52 - binade ?q)) * ulp ?q
      = ?q * ((2::rat) powi (52 - binade ?q) * 2 powi (binade ?q - 52))"
    using e unfolding u by (simp add: two_powi_nat [symmetric])
  also have "(2::rat) powi (52 - binade ?q) * 2 powi (binade ?q - 52) = 1"
    by (simp only: two_powi_add) simp
  finally have "?q = of_int (int n * 2 ^ nat (52 - binade ?q)) * ulp ?q" by simp
  with q(1) show ?thesis by (rule round_double_exact)
qed

subsection \<open>The sub-timeout of \<open>login\<close>\<close>

lemma sub_timeout_60000: "sub_timeout 60000 = 10000"
  unfolding sub_timeout_def by code_simp

lemma sub_timeout_100: "sub_timeout 100 = 4691249611844267 / 140737488355328"
  unfolding sub_timeout_def by code_simp

lemma sub_timeout_cap: "30000 \<le> timeout \<Longrightarrow> sub_timeout timeout = 10000"
  using round_double_ge_10000 [of "timeout / 3"] by (simp add: sub_timeout_def)

lemma sub_timeout_exact: "n < 2 ^ 53 \<Longrightarrow> sub_timeout (3 * of_nat n) = min 10000 (of_nat n)"
  by (simp add: sub_timeout_def round_double_nat)

lemma sub_timeout_near:
  assumes "2 powi (- 1022) \<le> timeout / 3"
  shows "\<bar>sub_timeout timeout - min 10000 (timeout / 3)\<bar> \<le> timeout / 3 / 2 ^ 53"
proof -
  have "\<bar>min 10000 (round_double (timeout / 3)) - min 10000 (timeout / 3)\<bar>
      \<le> \<bar>round_double (timeout / 3) - timeout / 3\<bar>"
    by (simp add: min_def abs_if)
  with round_double_relative [OF assms] show ?thesis
    unfolding sub_timeout_def by linarith
qed

section \<open>Sample inputs\<close>

text \<open>The short link of the sample share text, as \<open>extractRedBookUrl\<close> finds it.\<close>

lemma extract_share_text_short:
  "extractRedBookUrl share_text_short = of_ascii ''http://xhslink.com/a/Bc1''"
  by (simp add: extractRedBookUrl_def of_ascii_def xhslinkRegex_def lit_def path_class_def
      cls_mem_def in_range_ci_def ci_eq_def to_upper_def to_lower_def share_text_short_def)

lemma ci_prefix_Nil [simp]: "ci_prefix [] s"
  by (simp add: ci_prefix_def of_ascii_def)

lemma ci_prefix_Cons:
  "ci_prefix (c # w) s = (case s of [] \<Rightarrow> False | x # xs \<Rightarrow> ci_eq (of_char c) x \<and> ci_prefix w xs)"
  by (cases s) (auto simp: ci_prefix_def of_ascii_def)

lemma rx_lit_cont:
  "concat (map (rx r) (rx (lit w) s)) = (if ci_prefix w s then rx r (drop (length w) s) else [])"
proof (induction w arbitrary: s)
  case Nil
  then show ?case by (simp add: lit_def)
next
  case (Cons c w)
  have unf: "lit (c # w) = Seq (Chr (of_char c)) (lit w)"
    by (simp add: lit_def)
  show ?case
  proof (cases s)
    case Nil
    then show ?thesis by (simp add: unf ci_prefix_Cons)
  next
    case (Cons x xs)
    then show ?thesis
      using Cons.IH [of xs] by (auto simp: unf ci_prefix_Cons split: if_splits)
  qed
qed

lemma rx_lit: "rx (Seq (lit w) r) s = (if ci_prefix w s then rx r (drop (length w) s) else [])"
  using rx_lit_cont [of r w s] by simp

lemma rx_star_Cls_step:
  "rx_star (Cls rs neg) (c # cs) =
     (if cls_mem rs neg c then rx_star (Cls rs neg) cs @ [c # cs] else [c # cs])"
  by (subst rx_star.simps) simp

lemma rx_star_Cls_Nil: "rx_star (Cls rs neg) [] = [[]]"
  by (subst rx_star.simps) simp

lemma rx_star_Cls:
  "rx_star (Cls rs neg) s \<noteq> [] \<and> hd (rx_star (Cls rs neg) s) = dropWhile (cls_mem rs neg) s"
  by (induction s) (simp_all add: rx_star_Cls_Nil rx_star_Cls_step del: rx_star.simps)

lemma rx_plus_Cls:
  "rx (Plus (Cls rs neg)) s =
     (case s of [] \<Rightarrow> [] | c # cs \<Rightarrow> if cls_mem rs neg c then rx_star (Cls rs neg) cs else [])"
  by (cases s) (simp_all del: rx_star.simps)

lemma rx_host_plus:
  "rx (Seq (lit h) (Plus (Cls rs neg))) t \<noteq> [] \<longleftrightarrow> link_start h (cls_mem rs neg) t"
  "link_start h (cls_mem rs neg) t \<Longrightarrow>
     hd (rx (Seq (lit h) (Plus (Cls rs neg))) t) = link_rest h (cls_mem rs neg) t"
  using rx_star_Cls [of rs neg]
  by (auto simp: rx_lit rx_plus_Cls link_start_def link_rest_def
           simp del: rx.simps rx_star.simps split: list.splits)

lemma ci_prefix_append:
  "ci_prefix (u @ v) s = (ci_prefix u s \<and> ci_prefix v (drop (length u) s))"
proof (induction u arbitrary: s)
  case Nil
  then show ?case by simp
next
  case (Cons c u)
  then show ?case by (cases s) (auto simp: ci_prefix_Cons)
qed

lemma rx_opt_seq: "rx (Seq (Opt a) b) s = rx (Seq a b) s @ rx b s"
  by simp

lemma xhs_alt:
  "rx xhslinkRegex t =
     rx (Seq (lit ''https://xhslink.com/'') (Plus (Cls path_class False))) t
     @ rx (Seq (lit ''http://xhslink.com/'') (Plus (Cls path_class False))) t"
proof -
  have a: "ci_prefix ''https://xhslink.com/'' t =
      (ci_prefix ''http'' t \<and> ci_prefix ''s'' (drop (length ''http'') t)
       \<and> ci_prefix ''://xhslink.com/'' (drop (length ''https'') t))"
    using ci_prefix_append [of "''http''" "''s://xhslink.com/''" t]
      ci_prefix_append [of "''s''" "''://xhslink.com/''" "drop (length ''http'') t"] by simp
  have b: "ci_prefix ''http://xhslink.com/'' t =
      (ci_prefix ''http'' t \<and> ci_prefix ''://xhslink.com/'' (drop (length ''http'') t))"
    using ci_prefix_append [of "''http''" "''://xhslink.com/''" t] by simp
  show ?thesis
    by (simp add: xhslinkRegex_def rx_opt_seq rx_lit a b del: rx.simps rx_star.simps)
qed

lemma xiaohongshu_alt:
  "rx xiaohongshuRegex t =
     rx (Seq (lit ''https://www.xiaohongshu.com/'') (Plus (Cls stop_class True))) t
     @ rx (Seq (lit ''https://xiaohongshu.com/'') (Plus (Cls stop_class True))) t
     @ rx (Seq (lit ''http://www.xiaohongshu.com/'') (Plus (Cls stop_class True))) t
     @ rx (Seq (lit ''http://xiaohongshu.com/'') (Plus (Cls stop_class True))) t"
proof -
  have a: "ci_prefix ''https://www.xiaohongshu.com/'' t =
      (ci_prefix ''http'' t \<and> ci_prefix ''s'' (drop (length ''http'') t)
       \<and> ci_prefix ''://'' (drop (length ''https'') t)
       \<and> ci_prefix ''www.'' (drop (length ''https://'') t)
       \<and> ci_prefix ''xiaohongshu.com/'' (drop (length ''https://www.'') t))"
    using ci_prefix_append [of "''http''" "''s://www.xiaohongshu.com/''" t]
      ci_prefix_append [of "''s''" "''://www.xiaohongshu.com/''" "drop (length ''http'') t"]
      ci_prefix_append [of "''://''" "''www.xiaohongshu.com/''" "drop (length ''https'') t"]
      ci_prefix_append [of "''www.''" "''xiaohongshu.com/''" "drop (length ''https://'') t"]
    by simp
  have b: "ci_prefix ''https://xiaohongshu.com/'' t =
      (ci_prefix ''http'' t \<and> ci_prefix ''s'' (drop (length ''http'') t)
       \<and> ci_prefix ''://'' (drop (length ''https'') t)
       \<and> ci_prefix ''xiaohongshu.com/'' (drop (length ''https://'') t))"
    using ci_prefix_append [of "''http''" "''s://xiaohongshu.com/''" t]
      ci_prefix_append [of "''s''" "''://xiaohongshu.com/''" "drop (length ''http'') t"]
      ci_prefix_append [of "''://''" "''xiaohongshu.com/''" "drop (length ''https'') t"]
    by simp
  have c: "ci_prefix ''http://www.xiaohongshu.com/'' t =
      (ci_prefix ''http'' t \<and> ci_prefix ''://'' (drop (length ''http'') t)
       \<and> ci_prefix ''www.'' (drop (length ''http://'') t)
       \<and> ci_prefix ''xiaohongshu.com/'' (drop (length ''http://www.'') t))"
    using ci_prefix_append [of "''http''" "''://www.xiaohongshu.com/''" t]
      ci_prefix_append [of "''://''" "''www.xiaohongshu.com/''" "drop (length ''http'') t"]
      ci_prefix_append [of "''www.''" "''xiaohongshu.com/''" "drop (length ''http://'') t"]
    by simp
  have d: "ci_prefix ''http://xiaohongshu.com/'' t =
      (ci_prefix ''http'' t \<and> ci_prefix ''://'' (drop (length ''http'') t)
       \<and> ci_prefix ''xiaohongshu.com/'' (drop (length ''http://'') t))"
    using ci_prefix_append [of "''http''" "''://xiaohongshu.com/''" t]
      ci_prefix_append [of "''://''" "''xiaohongshu.com/''" "drop (length ''http'') t"]
    by simp
  show ?thesis
    by (simp add: xiaohongshuRegex_def rx_opt_seq rx_lit a b c d del: rx.simps rx_star.simps)
qed

lemma ci_prefix_length: "ci_prefix h t \<Longrightarrow> length h \<le> length t"
  by (simp add: ci_prefix_def)

lemma ci_prefix_take: "length h \<le> length m \<Longrightarrow> ci_prefix h (m @ suf) = ci_prefix h m"
  by (simp add: ci_prefix_def)

lemma link_start_split:
  assumes "link_start h ok t"
  shows "\<exists>m suf. t = m @ suf \<and> ci_prefix h m \<and> drop (length h) m \<noteq> []
           \<and> list_all ok (drop (length h) m) \<and> (suf = [] \<or> \<not> ok (hd suf))
           \<and> link_rest h ok t = suf"
proof -
  define u where "u = drop (length h) t"
  define m where "m = take (length h) t @ takeWhile ok u"
  define suf where "suf = dropWhile ok u"
  from assms have pre: "ci_prefix h t" and u: "u \<noteq> []" "ok (hd u)"
    by (auto simp: link_start_def u_def split: list.splits)
  have len: "length h \<le> length t" using pre by (rule ci_prefix_length)
  have t: "t = m @ suf"
    by (simp add: m_def suf_def u_def)
  have dm: "drop (length h) m = takeWhile ok u"
    using len by (simp add: m_def)
  have "ci_prefix h m"
    using pre len by (simp add: ci_prefix_def m_def)
  moreover have "drop (length h) m \<noteq> []"
    using u by (cases u) (simp_all add: dm)
  moreover have "list_all ok (drop (length h) m)"
    by (auto simp: dm list_all_iff dest: set_takeWhileD)
  moreover have "suf = [] \<or> \<not> ok (hd suf)"
    using hd_dropWhile [of ok u] by (auto simp: suf_def)
  moreover have "link_rest h ok t = suf"
    by (simp add: link_rest_def suf_def u_def)
  ultimately show ?thesis using t by blast
qed

lemma link_start_append:
  assumes "ci_prefix h m" "drop (length h) m \<noteq> []" "list_all ok (drop (length h) m)"
  shows "link_start h ok (m @ suf)"
proof -
  have len: "length h \<le> length m" using assms(1) by (rule ci_prefix_length)
  obtain c cs where d: "drop (length h) m = c # cs"
    using assms(2) by (cases "drop (length h) m") auto
  with assms(3) have "ok c" by simp
  then show ?thesis
    using assms(1) len d by (simp add: link_start_def ci_prefix_take)
qed

lemma alts_Nil_iff:
  "alts hs rs neg t = [] \<longleftrightarrow> \<not> list_ex (\<lambda>h. link_start h (cls_mem rs neg) t) hs"
  using rx_host_plus(1) [of _ rs neg t]
  by (induction hs) (auto simp: alts_def simp del: rx.simps rx_star.simps)

lemma alts_hd:
  "alts hs rs neg t \<noteq> [] \<Longrightarrow>
     \<exists>h \<in> set hs. link_start h (cls_mem rs neg) t \<and> hd (alts hs rs neg t) = link_rest h (cls_mem rs neg) t"
proof (induction hs)
  case Nil
  then show ?case by (simp add: alts_def)
next
  case (Cons h hs)
  have unf: "alts (h # hs) rs neg t = rx (Seq (lit h) (Plus (Cls rs neg))) t @ alts hs rs neg t"
    by (simp add: alts_def del: rx.simps rx_star.simps)
  show ?case
  proof (cases "rx (Seq (lit h) (Plus (Cls rs neg))) t = []")
    case True
    with Cons show ?thesis by (auto simp: unf simp del: rx.simps rx_star.simps)
  next
    case False
    then have "link_start h (cls_mem rs neg) t" by (simp only: rx_host_plus(1))
    with False show ?thesis
      using rx_host_plus(2) [of h rs neg t] by (auto simp: unf simp del: rx.simps rx_star.simps)
  qed
qed

lemma alts_match:
  assumes "alts hs rs neg t \<noteq> []"
  shows "\<exists>m suf. t = m @ suf \<and> is_link hs (cls_mem rs neg) m
           \<and> (suf = [] \<or> \<not> cls_mem rs neg (hd suf))
           \<and> take (length t - length (hd (alts hs rs neg t))) t = m"
proof -
  from alts_hd [OF assms] obtain h where h: "h \<in> set hs" "link_start h (cls_mem rs neg) t"
    "hd (alts hs rs neg t) = link_rest h (cls_mem rs neg) t" by blast
  from link_start_split [OF h(2)] obtain m suf where ms: "t = m @ suf" "ci_prefix h m"
    "drop (length h) m \<noteq> []" "list_all (cls_mem rs neg) (drop (length h) m)"
    "suf = [] \<or> \<not> cls_mem rs neg (hd suf)" "link_rest h (cls_mem rs neg) t = suf" by blast
  have "is_link hs (cls_mem rs neg) m"
    using h(1) ms(2,3,4) by (auto simp: is_link_def list_ex_iff)
  moreover have "take (length t - length (hd (alts hs rs neg t))) t = m"
    using ms(1,6) h(3) by simp
  ultimately show ?thesis using ms(1,5) by blast
qed

lemma alts_complete:
  assumes "is_link hs (cls_mem rs neg) m"
  shows "alts hs rs neg (m @ suf) \<noteq> []"
proof -
  from assms obtain h where "h \<in> set hs" "ci_prefix h m" "drop (length h) m \<noteq> []"
    "list_all (cls_mem rs neg) (drop (length h) m)"
    by (auto simp: is_link_def list_ex_iff)
  then have "h \<in> set hs" "link_start h (cls_mem rs neg) (m @ suf)"
    by (auto intro: link_start_append)
  then show ?thesis by (auto simp: alts_Nil_iff list_ex_iff)
qed

lemma js_match_None_iff: "js_match r s = None \<longleftrightarrow> (\<forall>pre t. s = pre @ t \<longrightarrow> rx r t = [])"
proof (induction s)
  case Nil
  then show ?case by (auto split: list.splits)
next
  case (Cons c cs)
  show ?case
  proof (cases "rx r (c # cs)")
    case Nil
    have "(\<forall>pre t. c # cs = pre @ t \<longrightarrow> rx r t = []) \<longleftrightarrow> (\<forall>pre t. cs = pre @ t \<longrightarrow> rx r t = [])"
      using Nil by (auto simp: Cons_eq_append_conv)
    then show ?thesis using Nil Cons.IH by simp
  next
    case (Cons a list)
    then have "\<not> (\<forall>pre t. c # cs = pre @ t \<longrightarrow> rx r t = [])"
      by (metis append_Nil list.distinct(1))
    then show ?thesis using Cons by simp
  qed
qed

lemma js_match_Some:
  "js_match r s = Some m \<Longrightarrow>
     \<exists>pre t. s = pre @ t \<and> rx r t \<noteq> [] \<and> m = take (length t - length (hd (rx r t))) t
       \<and> (\<forall>pre' t'. s = pre' @ t' \<and> length pre' < length pre \<longrightarrow> rx r t' = [])"
proof (induction s)
  case Nil
  then show ?case by (auto split: list.splits)
next
  case (Cons c cs)
  show ?case
  proof (cases "rx r (c # cs)")
    case Nil
    with Cons.prems have "js_match r cs = Some m" by simp
    from Cons.IH [OF this] obtain pre t where pt: "cs = pre @ t" "rx r t \<noteq> []"
      "m = take (length t - length (hd (rx r t))) t"
      "\<forall>pre' t'. cs = pre' @ t' \<and> length pre' < length pre \<longrightarrow> rx r t' = []" by blast
    have "\<forall>pre' t'. c # cs = pre' @ t' \<and> length pre' < length (c # pre) \<longrightarrow> rx r t' = []"
    proof (intro allI impI)
      fix pre' t' assume a: "c # cs = pre' @ t' \<and> length pre' < length (c # pre)"
      show "rx r t' = []"
      proof (cases pre')
        case Nil
        with a Cons.prems \<open>rx r (c # cs) = []\<close> show ?thesis by simp
      next
        case (Cons x xs)
        with a have "cs = xs @ t'" "length xs < length pre" by auto
        with pt(4) show ?thesis by blast
      qed
    qed
    moreover have "c # cs = (c # pre) @ t" using pt(1) by simp
    ultimately show ?thesis using pt(2,3) by blast
  next
    case (Cons a list)
    with Cons.prems have "m = take (length (c # cs) - length (hd (rx r (c # cs)))) (c # cs)"
      by auto
    moreover have "rx r (c # cs) \<noteq> []" using Cons by simp
    ultimately show ?thesis
      by (intro exI [of _ "[]"] exI [of _ "c # cs"]) simp
  qed
qed

lemma in_range_ci_plain:
  "hi < 65 \<or> 122 < lo \<Longrightarrow> in_range_ci c (lo, hi) = (lo \<le> c \<and> c \<le> hi)"
  unfolding in_range_ci_def to_upper_def to_lower_def fst_conv snd_conv
  by (cases "97 \<le> c \<and> c \<le> 122"; cases "65 \<le> c \<and> c \<le> 90"; simp only: if_True if_False; arith)

lemma in_range_ci_lower: "in_range_ci c (97, 122) = (97 \<le> c \<and> c \<le> 122 \<or> 65 \<le> c \<and> c \<le> 90)"
  unfolding in_range_ci_def to_upper_def to_lower_def fst_conv snd_conv
  by (cases "97 \<le> c \<and> c \<le> 122"; cases "65 \<le> c \<and> c \<le> 90"; simp only: if_True if_False; arith)

lemma in_range_ci_upper: "in_range_ci c (65, 90) = (97 \<le> c \<and> c \<le> 122 \<or> 65 \<le> c \<and> c \<le> 90)"
  unfolding in_range_ci_def to_upper_def to_lower_def fst_conv snd_conv
  by (cases "97 \<le> c \<and> c \<le> 122"; cases "65 \<le> c \<and> c \<le> 90"; simp only: if_True if_False; arith)

lemma range_single: "((a::nat) \<le> c \<and> c \<le> a) = (c = a)"
  by auto

lemma path_class_mem: "cls_mem path_class False = path_char"
  apply (rule ext)
  apply (simp add: cls_mem_def path_class_def in_range_ci_lower in_range_ci_upper
      in_range_ci_plain path_char_def range_single)
  apply blast
  done

lemma stop_class_mem: "cls_mem stop_class True = url_char"
  by (rule ext) (simp add: cls_mem_def stop_class_def in_range_ci_plain stop_char_def url_char_def
      white_space_def range_single)

lemma is_link_nonempty: "is_link hs ok m \<Longrightarrow> m \<noteq> []"
  by (auto simp: is_link_def list_ex_iff)

lemma match_has_link:
  assumes R: "\<And>t. rx R t = alts hs rs neg t"
    and has: "has_link (is_link hs (cls_mem rs neg)) s"
  shows "\<exists>m. js_match R s = Some m \<and> m \<noteq> [] \<and> first_link (is_link hs (cls_mem rs neg)) (cls_mem rs neg) s m"
proof -
  from has obtain pre0 m0 suf0 where s0: "s = pre0 @ m0 @ suf0" "is_link hs (cls_mem rs neg) m0"
    by (auto simp: has_link_def)
  have "rx R (m0 @ suf0) \<noteq> []"
    using alts_complete [OF s0(2), of suf0] by (simp add: R del: rx.simps rx_star.simps)
  with s0(1) have "js_match R s \<noteq> None"
    by (simp only: js_match_None_iff) blast
  then obtain m where m: "js_match R s = Some m" by blast
  from js_match_Some [OF m] obtain pre t where pt: "s = pre @ t" "rx R t \<noteq> []"
    "m = take (length t - length (hd (rx R t))) t"
    "\<forall>pre' t'. s = pre' @ t' \<and> length pre' < length pre \<longrightarrow> rx R t' = []" by blast
  from pt(2) have ne: "alts hs rs neg t \<noteq> []" by (simp add: R del: rx.simps rx_star.simps)
  from alts_match [OF ne] obtain m1 suf where ms: "t = m1 @ suf" "is_link hs (cls_mem rs neg) m1"
    "suf = [] \<or> \<not> cls_mem rs neg (hd suf)"
    "take (length t - length (hd (alts hs rs neg t))) t = m1" by blast
  have mm: "m = m1" using pt(3) ms(4) by (simp add: R del: rx.simps rx_star.simps)
  have left: "\<forall>pre' m' suf'. s = pre' @ m' @ suf' \<and> is_link hs (cls_mem rs neg) m' \<longrightarrow> length pre \<le> length pre'"
  proof (intro allI impI)
    fix pre' m' suf' assume a: "s = pre' @ m' @ suf' \<and> is_link hs (cls_mem rs neg) m'"
    show "length pre \<le> length pre'"
    proof (rule ccontr)
      assume "\<not> length pre \<le> length pre'"
      then have "length pre' < length pre" by simp
      with a pt(4) have "rx R (m' @ suf') = []" by blast
      moreover have "rx R (m' @ suf') \<noteq> []"
        using alts_complete [of hs rs neg m' suf'] a by (simp add: R del: rx.simps rx_star.simps)
      ultimately show False by blast
    qed
  qed
  have "first_link (is_link hs (cls_mem rs neg)) (cls_mem rs neg) s m"
    unfolding first_link_def
    using pt(1) ms(1,2,3) mm left by (intro exI [of _ pre] exI [of _ suf]) simp
  moreover have "m \<noteq> []" using ms(2) mm is_link_nonempty by blast
  ultimately show ?thesis using m by blast
qed

lemma match_no_link:
  assumes R: "\<And>t. rx R t = alts hs rs neg t"
    and no: "\<not> has_link (is_link hs (cls_mem rs neg)) s"
  shows "js_match R s = None"
proof (rule ccontr)
  assume "js_match R s \<noteq> None"
  then obtain m where m: "js_match R s = Some m" by blast
  from js_match_Some [OF m] obtain pre t where pt: "s = pre @ t" "rx R t \<noteq> []" by blast
  from pt(2) have ne: "alts hs rs neg t \<noteq> []" by (simp add: R del: rx.simps rx_star.simps)
  from alts_match [OF ne] obtain m1 suf where "t = m1 @ suf" "is_link hs (cls_mem rs neg) m1"
    by blast
  with pt(1) have "has_link (is_link hs (cls_mem rs neg)) s"
    by (auto simp: has_link_def)
  with no show False by blast
qed

lemma xhs_alts: "rx xhslinkRegex t = alts short_hosts path_class False t"
  by (simp add: xhs_alt alts_def short_hosts_def del: rx.simps rx_star.simps)

lemma xiaohongshu_alts: "rx xiaohongshuRegex t = alts canonical_hosts stop_class True t"
  by (simp add: xiaohongshu_alt alts_def canonical_hosts_def del: rx.simps rx_star.simps)

lemma has_link_match_short: "has_link short_link s \<longleftrightarrow> js_match xhslinkRegex s \<noteq> None"
proof
  assume "has_link short_link s"
  then have "has_link (is_link short_hosts (cls_mem path_class False)) s"
    by (simp add: short_link_def [abs_def] path_class_mem)
  from match_has_link [OF xhs_alts this] show "js_match xhslinkRegex s \<noteq> None" by auto
next
  assume m: "js_match xhslinkRegex s \<noteq> None"
  have "has_link (is_link short_hosts (cls_mem path_class False)) s"
  proof (rule ccontr)
    assume "\<not> has_link (is_link short_hosts (cls_mem path_class False)) s"
    from match_no_link [OF xhs_alts this] m show False by simp
  qed
  then show "has_link short_link s"
    by (simp add: short_link_def [abs_def] path_class_mem)
qed

lemma has_link_match_canonical:
  "has_link canonical_link s \<longleftrightarrow> js_match xiaohongshuRegex s \<noteq> None"
proof
  assume "has_link canonical_link s"
  then have "has_link (is_link canonical_hosts (cls_mem stop_class True)) s"
    by (simp add: canonical_link_def [abs_def] stop_class_mem)
  from match_has_link [OF xiaohongshu_alts this] show "js_match xiaohongshuRegex s \<noteq> None"
    by auto
next
  assume m: "js_match xiaohongshuRegex s \<noteq> None"
  have "has_link (is_link canonical_hosts (cls_mem stop_class True)) s"
  proof (rule ccontr)
    assume "\<not> has_link (is_link canonical_hosts (cls_mem stop_class True)) s"
    from match_no_link [OF xiaohongshu_alts this] m show False by simp
  qed
  then show "has_link canonical_link s"
    by (simp add: canonical_link_def [abs_def] stop_class_mem)
qed

text \<open>
  C5. \<open>extractRedBookUrl\<close> is a function of its argument alone and has a value for every
  string. When the string holds a short link (scheme, host \<open>xhslink.com\<close>, a path of letters,
  digits and slashes), the value is the first of them, taken as far as the path runs. When it
  holds none but holds a canonical link (host \<open>xiaohongshu.com\<close> with or without \<open>www.\<close>), the
  value is the first of these, as far as no white space or full-width comma is met. When it
  holds neither, the value is the string itself.
\<close>

theorem extractRedBookUrl_resolves:
  "(has_link short_link s \<longrightarrow> first_link short_link path_char s (extractRedBookUrl s))
   \<and> (\<not> has_link short_link s \<and> has_link canonical_link s \<longrightarrow>
        first_link canonical_link url_char s (extractRedBookUrl s))
   \<and> (\<not> has_link short_link s \<and> \<not> has_link canonical_link s \<longrightarrow> extractRedBookUrl s = s)"
proof (intro conjI impI)
  assume "has_link short_link s"
  then have "has_link (is_link short_hosts (cls_mem path_class False)) s"
    by (simp add: short_link_def [abs_def] path_class_mem)
  from match_has_link [OF xhs_alts this]
  show "first_link short_link path_char s (extractRedBookUrl s)"
    by (auto simp: extractRedBookUrl_def short_link_def [abs_def] path_class_mem)
next
  assume a: "\<not> has_link short_link s \<and> has_link canonical_link s"
  then have "\<not> has_link (is_link short_hosts (cls_mem path_class False)) s"
    by (simp add: short_link_def [abs_def] path_class_mem)
  from match_no_link [OF xhs_alts this] have n: "js_match xhslinkRegex s = None" .
  from a have "has_link (is_link canonical_hosts (cls_mem stop_class True)) s"
    by (simp add: canonical_link_def [abs_def] stop_class_mem)
  from match_has_link [OF xiaohongshu_alts this]
  show "first_link canonical_link url_char s (extractRedBookUrl s)"
    using n by (auto simp: extractRedBookUrl_def canonical_link_def [abs_def] stop_class_mem)
next
  assume a: "\<not> has_link short_link s \<and> \<not> has_link canonical_link s"
  then have "\<not> has_link (is_link short_hosts (cls_mem path_class False)) s"
    by (simp add: short_link_def [abs_def] path_class_mem)
  from match_no_link [OF xhs_alts this] have n: "js_match xhslinkRegex s = None" .
  from a have "\<not> has_link (is_link canonical_hosts (cls_mem stop_class True)) s"
    by (simp add: canonical_link_def [abs_def] stop_class_mem)
  from match_no_link [OF xiaohongshu_alts this] have n': "js_match xiaohongshuRegex s = None" .
  show "extractRedBookUrl s = s"
    by (simp add: extractRedBookUrl_def n n')
qed

text \<open>
  Witness of \<open>extractRedBookUrl_resolves\<close>, one input for each of its three cases: a share
  text with Chinese prose around a short link, a canonical link followed by a full-width
  comma, and a short-link host with no path (which neither pattern matches).
\<close>

theorem extractRedBookUrl_resolves_witness:
  "has_link short_link share_text_short
   \<and> first_link short_link path_char share_text_short (of_ascii ''http://xhslink.com/a/Bc1'')
   \<and> \<not> has_link short_link share_text_canonical
   \<and> has_link canonical_link share_text_canonical
   \<and> first_link canonical_link url_char share_text_canonical
        (of_ascii ''https://www.xiaohongshu.com/explore/66aa?x=1'')
   \<and> \<not> has_link short_link share_text_plain
   \<and> \<not> has_link canonical_link share_text_plain
   \<and> extractRedBookUrl share_text_plain = share_text_plain"
proof -
  note ev = extractRedBookUrl_def of_ascii_def xhslinkRegex_def xiaohongshuRegex_def lit_def
    path_class_def stop_class_def cls_mem_def in_range_ci_def ci_eq_def to_upper_def to_lower_def
    share_text_short_def share_text_canonical_def share_text_plain_def
  note e1 = extract_share_text_short
  have e2: "extractRedBookUrl share_text_canonical =
      of_ascii ''https://www.xiaohongshu.com/explore/66aa?x=1''"
    by (simp add: ev)
  have h1: "has_link short_link share_text_short"
    by (simp add: has_link_match_short ev)
  have n2: "\<not> has_link short_link share_text_canonical"
    by (simp add: has_link_match_short ev)
  have h2: "has_link canonical_link share_text_canonical"
    by (simp add: has_link_match_canonical ev)
  have n3: "\<not> has_link short_link share_text_plain"
    by (simp add: has_link_match_short ev)
  have n4: "\<not> has_link canonical_link share_text_plain"
    by (simp add: has_link_match_canonical ev)
  show ?thesis
    using extractRedBookUrl_resolves [of share_text_short]
      extractRedBookUrl_resolves [of share_text_canonical]
      extractRedBookUrl_resolves [of share_text_plain]
      h1 n2 h2 n3 n4 e1 e2
    by simp
qed

section \<open>Running a method: results, final states and call logs\<close>

lemma result_tuple [simp]: "result (x, s, tr) = x"
  by (simp add: result_def)

lemma final_tuple [simp]: "final (x, s, tr) = s"
  by (simp add: final_def)

lemma calls_tuple [simp]: "calls (x, s, tr) = tr"
  by (simp add: calls_def)

lemma run_eqI: "result r = x \<Longrightarrow> final r = s \<Longrightarrow> calls r = tr \<Longrightarrow> r = (x, s, tr)"
  by (auto simp: result_def final_def calls_def)

lemma result_bind:
  "result (bind m f s) =
     (case result (m s) of Inl e \<Rightarrow> Inl e | Inr x \<Rightarrow> result (f x (final (m s))))"
  by (simp add: bind_def result_def final_def split: prod.splits sum.splits)

lemma final_bind:
  "final (bind m f s) =
     (case result (m s) of Inl e \<Rightarrow> final (m s) | Inr x \<Rightarrow> final (f x (final (m s))))"
  by (simp add: bind_def result_def final_def split: prod.splits sum.splits)

lemma calls_bind:
  "calls (bind m f s) =
     calls (m s) @ (case result (m s) of Inl e \<Rightarrow> [] | Inr x \<Rightarrow> calls (f x (final (m s))))"
  by (simp add: bind_def calls_def result_def final_def split: prod.splits sum.splits)

lemma result_try_catch:
  "result (try_catch m h s) =
     (case result (m s) of Inl e \<Rightarrow> result (h e (final (m s))) | Inr x \<Rightarrow> Inr x)"
  by (simp add: try_catch_def result_def final_def split: prod.splits sum.splits)

lemma final_try_catch:
  "final (try_catch m h s) =
     (case result (m s) of Inl e \<Rightarrow> final (h e (final (m s))) | Inr x \<Rightarrow> final (m s))"
  by (simp add: try_catch_def result_def final_def split: prod.splits sum.splits)

lemma calls_try_catch:
  "calls (try_catch m h s) =
     calls (m s) @ (case result (m s) of Inl e \<Rightarrow> calls (h e (final (m s))) | Inr x \<Rightarrow> [])"
  by (simp add: try_catch_def calls_def result_def final_def split: prod.splits sum.splits)

lemma result_try_finally:
  "result (try_finally m c s) =
     (case result (c (final (m s))) of Inl e \<Rightarrow> Inl e | Inr u \<Rightarrow> result (m s))"
  by (simp add: try_finally_def result_def final_def split: prod.splits sum.splits)

lemma final_try_finally: "final (try_finally m c s) = final (c (final (m s)))"
  by (simp add: try_finally_def result_def final_def split: prod.splits sum.splits)

lemma calls_try_finally:
  "calls (try_finally m c s) = calls (m s) @ calls (c (final (m s)))"
  by (simp add: try_finally_def calls_def result_def final_def split: prod.splits sum.splits)

lemma run_ret: "result (ret x s) = Inr x" "final (ret x s) = s" "calls (ret x s) = []"
  by (simp_all add: ret_def)

lemma run_throw: "result (throw e s) = Inl e" "final (throw e s) = s" "calls (throw e s) = []"
  by (simp_all add: throw_def)

lemma run_emit: "result (emit ev s) = Inr ()" "final (emit ev s) = s" "calls (emit ev s) = [ev]"
  by (simp_all add: emit_def)

lemma run_modify:
  "result (modify g s) = Inr ()" "final (modify g s) = g s" "calls (modify g s) = []"
  by (simp_all add: modify_def)

lemma run_reads:
  "result (reads g s) = Inr (g s)" "final (reads g s) = s" "calls (reads g s) = []"
  by (simp_all add: reads_def)

lemma run_await:
  "result (await ev out s) = (case out of Throws m \<Rightarrow> Inl [Text m] | Returns v \<Rightarrow> Inr v)"
  "final (await ev out s) = s" "calls (await ev out s) = [ev]"
  by (simp_all add: await_def split: outcome.splits)

lemma run_loadCookies:
  "result (loadCookies s) = Inr (cookie_file s)" "final (loadCookies s) = s"
  "calls (loadCookies s) = [LoadCookies]"
  by (simp_all add: loadCookies_def)

lemma run_saveCookies:
  "result (saveCookies cs s) = Inr ()" "final (saveCookies cs s) = s\<lparr>cookie_file := cs\<rparr>"
  "calls (saveCookies cs s) = [SaveCookies cs]"
  by (simp_all add: saveCookies_def)

lemma run_in_auth:
  "result (in_auth m s) = result (m (authManager s))"
  "final (in_auth m s) = s\<lparr>authManager := final (m (authManager s))\<rparr>"
  "calls (in_auth m s) = calls (m (authManager s))"
  by (simp_all add: in_auth_def result_def final_def calls_def split: prod.splits)

lemma run_with_notes:
  "result (with_notes m s) = result (m (s, []))"
  "final (with_notes m s) = fst (final (m (s, [])))"
  "calls (with_notes m s) = calls (m (s, []))"
  by (simp_all add: with_notes_def result_def final_def calls_def split: prod.splits)

lemmas run_simps = result_bind final_bind calls_bind result_try_catch final_try_catch
  calls_try_catch result_try_finally final_try_finally calls_try_finally
  run_ret run_throw run_emit run_modify run_reads run_await run_loadCookies run_saveCookies
  run_in_auth run_with_notes

subsection \<open>Rules for \<open>emits_only\<close>\<close>

lemma emits_only_ret: "emits_only P (ret x)"
  by (simp add: emits_only_def run_ret)

lemma emits_only_throw: "emits_only P (throw e)"
  by (simp add: emits_only_def run_throw)

lemma emits_only_modify: "emits_only P (modify f)"
  by (simp add: emits_only_def run_modify)

lemma emits_only_reads: "emits_only P (reads f)"
  by (simp add: emits_only_def run_reads)

lemma emits_only_emit: "P ev \<Longrightarrow> emits_only P (emit ev)"
  by (simp add: emits_only_def run_emit)

lemma emits_only_await: "P ev \<Longrightarrow> emits_only P (await ev out)"
  by (simp add: emits_only_def run_await)

lemma emits_only_bind:
  "emits_only P m \<Longrightarrow> (\<And>x. emits_only P (f x)) \<Longrightarrow> emits_only P (bind m f)"
  by (auto simp: emits_only_def calls_bind split: sum.splits)

lemma emits_only_try_catch:
  "emits_only P m \<Longrightarrow> (\<And>e. emits_only P (h e)) \<Longrightarrow> emits_only P (try_catch m h)"
  by (auto simp: emits_only_def calls_try_catch split: sum.splits)

lemma emits_only_try_finally:
  "emits_only P m \<Longrightarrow> emits_only P c \<Longrightarrow> emits_only P (try_finally m c)"
  by (auto simp: emits_only_def calls_try_finally)

lemma emits_only_if:
  "(c \<Longrightarrow> emits_only P a) \<Longrightarrow> (\<not> c \<Longrightarrow> emits_only P b) \<Longrightarrow>
     emits_only P (if c then a else b)"
  by simp

lemma emits_only_case_option:
  "emits_only P a \<Longrightarrow> (\<And>x. emits_only P (b x)) \<Longrightarrow>
     emits_only P (case v of None \<Rightarrow> a | Some x \<Rightarrow> b x)"
  by (cases v) simp_all

lemma emits_only_loadCookies: "P LoadCookies \<Longrightarrow> emits_only P loadCookies"
  by (simp add: emits_only_def run_loadCookies)

lemma emits_only_saveCookies: "P (SaveCookies cs) \<Longrightarrow> emits_only P (saveCookies cs)"
  by (simp add: emits_only_def run_saveCookies)

lemma emits_only_in_auth: "emits_only P m \<Longrightarrow> emits_only P (in_auth m)"
  by (simp add: emits_only_def run_in_auth)

lemma emits_only_with_notes: "emits_only P m \<Longrightarrow> emits_only P (with_notes m)"
  by (simp add: emits_only_def run_with_notes)

lemmas emits_only_intros = emits_only_ret emits_only_throw emits_only_modify emits_only_reads
  emits_only_emit emits_only_await emits_only_bind emits_only_try_catch emits_only_try_finally
  emits_only_if emits_only_case_option emits_only_loadCookies emits_only_saveCookies
  emits_only_in_auth emits_only_with_notes

lemma emits_onlyD: "emits_only P m \<Longrightarrow> ev \<in> set (calls (m s)) \<Longrightarrow> P ev"
  by (simp add: emits_only_def)

lemma emits_only_filter:
  "emits_only (\<lambda>ev. \<not> P ev) m \<Longrightarrow> filter P (calls (m s)) = []"
  by (auto simp: emits_only_def filter_empty_conv)

subsection \<open>Rules for \<open>keeps\<close>\<close>

lemma keeps_ret: "keeps f (ret x)"
  by (simp add: keeps_def run_ret)

lemma keeps_throw: "keeps f (throw e)"
  by (simp add: keeps_def run_throw)

lemma keeps_emit: "keeps f (emit ev)"
  by (simp add: keeps_def run_emit)

lemma keeps_await: "keeps f (await ev out)"
  by (simp add: keeps_def run_await)

lemma keeps_reads: "keeps f (reads g)"
  by (simp add: keeps_def run_reads)

lemma keeps_modify: "(\<And>s. f (g s) = f s) \<Longrightarrow> keeps f (modify g)"
  by (simp add: keeps_def run_modify)

lemma keeps_bind: "keeps f m \<Longrightarrow> (\<And>x. keeps f (k x)) \<Longrightarrow> keeps f (bind m k)"
  by (auto simp: keeps_def final_bind split: sum.splits)

lemma keeps_try_catch: "keeps f m \<Longrightarrow> (\<And>e. keeps f (h e)) \<Longrightarrow> keeps f (try_catch m h)"
  by (auto simp: keeps_def final_try_catch split: sum.splits)

lemma keeps_try_finally: "keeps f m \<Longrightarrow> keeps f c \<Longrightarrow> keeps f (try_finally m c)"
  by (auto simp: keeps_def final_try_finally)

lemma keeps_if: "(c \<Longrightarrow> keeps f a) \<Longrightarrow> (\<not> c \<Longrightarrow> keeps f b) \<Longrightarrow> keeps f (if c then a else b)"
  by simp

lemma keeps_case_option:
  "keeps f a \<Longrightarrow> (\<And>x. keeps f (b x)) \<Longrightarrow> keeps f (case v of None \<Rightarrow> a | Some x \<Rightarrow> b x)"
  by (cases v) simp_all

lemma keeps_loadCookies: "keeps f loadCookies"
  by (simp add: keeps_def run_loadCookies)

lemma keeps_saveCookies:
  "(\<And>s. f (s\<lparr>cookie_file := cs\<rparr>) = f s) \<Longrightarrow> keeps f (saveCookies cs)"
  by (simp add: keeps_def run_saveCookies)

lemmas keeps_intros = keeps_ret keeps_throw keeps_emit keeps_await keeps_reads keeps_modify
  keeps_bind keeps_try_catch keeps_try_finally keeps_if keeps_case_option keeps_loadCookies
  keeps_saveCookies

lemma keepsD: "keeps f m \<Longrightarrow> f (final (m s)) = f s"
  by (simp add: keeps_def)

lemma keeps_in_auth: "(\<And>s a. f (s\<lparr>authManager := a\<rparr>) = f s) \<Longrightarrow> keeps f (in_auth m)"
  by (simp add: keeps_def run_in_auth)

lemma keeps_with_notes: "keeps (\<lambda>s. f (fst s)) m \<Longrightarrow> keeps f (with_notes m)"
  by (simp add: keeps_def run_with_notes)

subsection \<open>Rules for \<open>returns_only\<close>\<close>

lemma returns_only_ret: "Q x \<Longrightarrow> returns_only Q (ret x)"
  by (simp add: returns_only_def run_ret)

lemma returns_only_throw: "returns_only Q (throw e)"
  by (simp add: returns_only_def run_throw)

lemma returns_only_bind: "(\<And>x. returns_only Q (f x)) \<Longrightarrow> returns_only Q (bind m f)"
  by (auto simp: returns_only_def result_bind split: sum.splits)

lemma returns_only_try_catch:
  "returns_only Q m \<Longrightarrow> (\<And>e. returns_only Q (h e)) \<Longrightarrow> returns_only Q (try_catch m h)"
  by (auto simp: returns_only_def result_try_catch split: sum.splits)

lemma returns_only_try_finally: "returns_only Q m \<Longrightarrow> returns_only Q (try_finally m c)"
  by (auto simp: returns_only_def result_try_finally split: sum.splits)

lemma returns_only_if:
  "(c \<Longrightarrow> returns_only Q a) \<Longrightarrow> (\<not> c \<Longrightarrow> returns_only Q b) \<Longrightarrow>
     returns_only Q (if c then a else b)"
  by simp

lemmas returns_only_intros = returns_only_ret returns_only_throw returns_only_bind
  returns_only_try_catch returns_only_try_finally returns_only_if

declare login_loop.simps [simp del] process_notes.simps [simp del]

lemma login_loop_unfold:
  "login_loop timeout env k =
     (if k < maxRetries then
        try_catch (login_attempt timeout (env k))
          (\<lambda>error.
             bind close_session (\<lambda>_.
               if k + 1 < maxRetries
               then bind (emit (Sleep 2000)) (\<lambda>_. login_loop timeout env (k + 1))
               else throw (login_failed_error error)))
      else ret ())"
  by (rule ext) (subst login_loop.simps, simp)

lemma login_loop_emits:
  assumes "\<And>j. j < maxRetries \<Longrightarrow> emits_only P (login_attempt timeout (env j))"
    "emits_only P close_session" "P (Sleep 2000)"
  shows "emits_only P (login_loop timeout env k)"
proof (induction "maxRetries - k" arbitrary: k)
  case 0
  then show ?case
    by (subst login_loop_unfold) (simp add: emits_only_ret)
next
  case (Suc n)
  then have "n = maxRetries - (k + 1)" by simp
  then have IH: "emits_only P (login_loop timeout env (k + 1))" by (rule Suc.hyps(1))
  from Suc.hyps(2) have k: "k < maxRetries" by simp
  show ?case
    by (subst login_loop_unfold) (intro emits_only_intros assms IH k)
qed

lemma login_emits:
  assumes "\<And>j. j < maxRetries \<Longrightarrow> emits_only P (login_attempt timeout (env j))"
    "emits_only P close_session" "P (Sleep 2000)" "P Launch"
  shows "emits_only P (login timeout launch env)"
  unfolding login_def by (intro emits_only_intros login_loop_emits assms)

lemmas attempt_defs = login_attempt_def login_in_context_def login_dialog_phase_def
  persist_cookies_def

lemma attempt_budgeted: "emits_only (budgeted timeout) (login_attempt timeout e)"
  unfolding attempt_defs
  by (intro emits_only_intros) (simp_all add: budgeted_def)

lemma close_session_budgeted: "emits_only (budgeted timeout) close_session"
  unfolding close_session_def
  by (intro emits_only_intros) (simp_all add: budgeted_def)

lemma run_close_session:
  "result (close_session s) = Inr ()" "final (close_session s) = s"
  "calls (close_session s) = close_calls s"
  by (simp_all add: close_session_def close_calls_def run_simps split: option.splits)

lemma attempt_quiet:
  "emits_only (\<lambda>ev. \<not> is_sleep ev \<and> \<not> is_close ev) (login_attempt timeout e)"
  unfolding attempt_defs
  by (intro emits_only_intros) (simp_all add: is_sleep_def is_close_def)

lemma attempt_browser: "keeps am_browser (login_attempt timeout e)"
  unfolding attempt_defs
  by (intro keeps_intros) simp_all

lemma in_context_no_new_context:
  "emits_only (\<lambda>ev. \<not> is_new_context ev) (login_in_context timeout e c)"
  unfolding login_in_context_def login_dialog_phase_def persist_cookies_def
  by (intro emits_only_intros) (simp_all add: is_new_context_def)

lemma in_context_filter:
  "filter is_new_context (calls (login_in_context timeout e c s)) = []"
  by (rule emits_only_filter) (rule in_context_no_new_context)

lemma is_new_context_simps [simp]: "is_new_context (NewContext b)"
  by (simp add: is_new_context_def)

lemma attempt_one_context:
  "am_browser s \<noteq> None \<Longrightarrow>
     length (filter is_new_context (calls (login_attempt timeout e s))) = 1"
  by (cases "r_newContext e") (auto simp: login_attempt_def run_simps in_context_filter)

lemma attempt_no_sleep: "filter is_sleep (calls (login_attempt timeout e s)) = []"
  using attempt_quiet [of timeout e]
  by (auto simp: emits_only_def filter_empty_conv)

lemma close_calls_no_attempt:
  "filter is_new_context (close_calls s) = []" "filter is_sleep (close_calls s) = []"
  by (simp_all add: close_calls_def is_new_context_def is_sleep_def split: option.splits)

text \<open>one step of the loop\<close>

lemma loop_done: "\<not> k < maxRetries \<Longrightarrow> login_loop timeout env k s = (Inr (), s, [])"
  by (subst login_loop.simps) (simp add: ret_def)

lemma try_catch_success: "result (m s) = Inr u \<Longrightarrow> try_catch m h s = m s"
  by (cases "m s") (auto simp: try_catch_def result_def)

lemma loop_success:
  assumes "k < maxRetries" "result (login_attempt timeout (env k) s) = Inr u"
  shows "login_loop timeout env k s = login_attempt timeout (env k) s"
  using assms
  by (subst login_loop_unfold) (simp add: try_catch_success)

lemma loop_failure:
  assumes "k < maxRetries" "result (login_attempt timeout (env k) s) = Inl cause"
  shows "calls (login_loop timeout env k s) =
           calls (login_attempt timeout (env k) s)
           @ close_calls (final (login_attempt timeout (env k) s))
           @ (if k + 1 < maxRetries
              then Sleep 2000 # calls (login_loop timeout env (k + 1)
                     (final (login_attempt timeout (env k) s)))
              else [])"
    and "result (login_loop timeout env k s) =
           (if k + 1 < maxRetries
            then result (login_loop timeout env (k + 1) (final (login_attempt timeout (env k) s)))
            else Inl (login_failed_error cause))"
    and "final (login_loop timeout env k s) =
           (if k + 1 < maxRetries
            then final (login_loop timeout env (k + 1) (final (login_attempt timeout (env k) s)))
            else final (login_attempt timeout (env k) s))"
  using assms
  by (subst login_loop_unfold, simp add: run_simps run_close_session)+

text \<open>the loop as a whole\<close>

lemma loop_counts:
  assumes "am_browser s \<noteq> None"
  shows "length (filter is_new_context (calls (login_loop timeout env k s))) \<le> maxRetries - k
    \<and> length (filter is_sleep (calls (login_loop timeout env k s)))
        = length (filter is_new_context (calls (login_loop timeout env k s))) - 1
    \<and> (k < maxRetries \<longrightarrow> 0 < length (filter is_new_context (calls (login_loop timeout env k s))))
    \<and> (\<forall>err. result (login_loop timeout env k s) = Inl err \<longrightarrow>
          k < maxRetries
          \<and> length (filter is_new_context (calls (login_loop timeout env k s))) = maxRetries - k
          \<and> (\<exists>cause s'. am_browser s' = am_browser s
                \<and> result (login_attempt timeout (env (maxRetries - 1)) s') = Inl cause
                \<and> err = login_failed_error cause))"
  using assms
proof (induction "maxRetries - k" arbitrary: k s)
  case 0
  then have "\<not> k < maxRetries" by simp
  then show ?case by (simp add: loop_done)
next
  case (Suc n)
  then have k: "k < maxRetries" by simp
  let ?A = "login_attempt timeout (env k) s"
  have one: "length (filter is_new_context (calls ?A)) = 1"
    using Suc.prems by (rule attempt_one_context)
  show ?case
  proof (cases "result ?A")
    case (Inr u)
    then have "login_loop timeout env k s = ?A" using k by (simp add: loop_success)
    then show ?thesis using one k Inr by (simp add: attempt_no_sleep)
  next
    case (Inl cause)
    note step = loop_failure [where k = k and env = env and s = s and timeout = timeout, OF k Inl]
    have b: "am_browser (final ?A) = am_browser s"
      using attempt_browser by (rule keepsD)
    show ?thesis
    proof (cases "k + 1 < maxRetries")
      case True
      have n: "n = maxRetries - (k + 1)" using Suc.hyps(2) by simp
      have b': "am_browser (final ?A) \<noteq> None" using b Suc.prems by simp
      note IH = Suc.hyps(1) [OF n b']
      from IH show ?thesis
        using True one k b
        by (simp add: step attempt_no_sleep close_calls_no_attempt is_sleep_def is_new_context_def)
           (intro conjI impI; linarith)
    next
      case False
      then have last: "maxRetries - 1 = k" using k by simp
      have r: "result (login_loop timeout env k s) = Inl (login_failed_error cause)"
        using False by (simp add: step)
      have c: "calls (login_loop timeout env k s) = calls ?A @ close_calls (final ?A)"
        using False by (simp add: step)
      have ex: "\<exists>cause' s'. am_browser s' = am_browser s
          \<and> result (login_attempt timeout (env (maxRetries - 1)) s') = Inl cause'
          \<and> login_failed_error cause = login_failed_error cause'"
        unfolding last using Inl by (intro exI [of _ cause] exI [of _ s]) simp
      have n: "maxRetries - k = 1" using False k by simp
      show ?thesis
        using one k ex n by (simp add: r c attempt_no_sleep close_calls_no_attempt)
    qed
  qed
qed

lemma loop_prefix:
  "k < maxRetries \<Longrightarrow>
     set (calls (login_attempt timeout (env k) s)) \<subseteq> set (calls (login_loop timeout env k s))"
  by (subst login_loop_unfold) (simp add: calls_try_catch)

lemma run_login:
  "launch = Returns b \<Longrightarrow>
     result (login timeout launch env s) = result (login_loop timeout env 0 (s\<lparr>am_browser := Some b\<rparr>))"
  "launch = Returns b \<Longrightarrow>
     final (login timeout launch env s) = final (login_loop timeout env 0 (s\<lparr>am_browser := Some b\<rparr>))"
  "launch = Returns b \<Longrightarrow>
     calls (login timeout launch env s) = Launch # calls (login_loop timeout env 0 (s\<lparr>am_browser := Some b\<rparr>))"
  by (simp_all add: login_def run_simps)

lemma run_login_Throws:
  "launch = Throws m \<Longrightarrow> login timeout launch env s = (Inl [Text m], s, [Launch])"
  by (rule run_eqI) (simp_all add: login_def run_simps)

lemma attempt_waits:
  assumes "am_browser s = Some b" "r_newContext e = Returns c" "r_newPage e = Returns p"
    "r_addCookies e = Returns ()" "r_goto e = Returns ()"
    "r_sidebar e = Returns False" "r_dialog e = Returns ()"
    "r_qrcode e = Returns ()"
  shows "\<exists>tr. calls (login_attempt timeout e s) =
     NewContext b # NewPage c # LoadCookies #
       (if cookie_file s = [] then [] else [AddCookies (cookie_file s)]) @
       [Goto explore_url (sub_timeout timeout), Query sidebar_selector,
        WaitForSelector login_container Visible (sub_timeout timeout),
        WaitForSelector qrcode_img Visible (sub_timeout timeout),
        WaitForSelector sidebar_selector Visible timeout] @ tr"
  using assms
  by (simp add: attempt_defs run_simps)

text \<open>
  C2, as the code has it. In every run of \<open>login\<close> with a (finite) \<open>timeout\<close>, the navigation to
  the landing page and the waits for the login dialog and for the QR code get
  \<open>Math.min(10000, timeout / 3)\<close> as the code computes it, that is \<open>sub_timeout timeout\<close>: the
  double nearest to the third, capped at 10000; the wait for the human gets \<open>timeout\<close> itself;
  and a run that reaches the human wait makes these four calls. The sub-timeout is 10000 from
  30000 on, it is \<open>min 10000 (timeout / 3)\<close> when the third is a whole number below \<open>2 ^ 53\<close>,
  and it differs from \<open>min 10000 (timeout / 3)\<close> by at most the \<open>2 ^ 53\<close>th part of the third
  otherwise.
\<close>

theorem login_timeout_budget:
  "(\<forall>ev \<in> set (calls (login timeout launch env s)).
      (\<forall>url t. ev = Goto url t \<longrightarrow> url = explore_url \<and> t = sub_timeout timeout) \<and>
      (\<forall>sel st t. ev = WaitForSelector sel st t \<longrightarrow>
         (sel = login_container \<or> sel = qrcode_img) \<and> t = sub_timeout timeout
         \<or> sel = sidebar_selector \<and> t = timeout))
   \<and> (launch = Returns b \<and> r_newContext (env 0) = Returns c \<and> r_newPage (env 0) = Returns p
        \<and> r_addCookies (env 0) = Returns () \<and> r_goto (env 0) = Returns ()
        \<and> r_sidebar (env 0) = Returns False \<and> r_dialog (env 0) = Returns ()
        \<and> r_qrcode (env 0) = Returns () \<longrightarrow>
      Goto explore_url (sub_timeout timeout) \<in> set (calls (login timeout launch env s))
      \<and> WaitForSelector login_container Visible (sub_timeout timeout)
          \<in> set (calls (login timeout launch env s))
      \<and> WaitForSelector qrcode_img Visible (sub_timeout timeout)
          \<in> set (calls (login timeout launch env s))
      \<and> WaitForSelector sidebar_selector Visible timeout
          \<in> set (calls (login timeout launch env s)))
   \<and> (30000 \<le> timeout \<longrightarrow> sub_timeout timeout = 10000)
   \<and> (n < 2 ^ 53 \<longrightarrow> sub_timeout (3 * of_nat n) = min 10000 (of_nat n))
   \<and> (2 powi (- 1022) \<le> timeout / 3 \<longrightarrow>
        \<bar>sub_timeout timeout - min 10000 (timeout / 3)\<bar> \<le> timeout / 3 / 2 ^ 53)"
proof (intro conjI impI)
  have "emits_only (budgeted timeout) (login timeout launch env)"
    by (intro login_emits attempt_budgeted close_session_budgeted) (simp_all add: budgeted_def)
  then have "\<forall>ev \<in> set (calls (login timeout launch env s)). budgeted timeout ev"
    by (simp add: emits_only_def)
  then show "\<forall>ev \<in> set (calls (login timeout launch env s)).
      (\<forall>url t. ev = Goto url t \<longrightarrow> url = explore_url \<and> t = sub_timeout timeout) \<and>
      (\<forall>sel st t. ev = WaitForSelector sel st t \<longrightarrow>
         (sel = login_container \<or> sel = qrcode_img) \<and> t = sub_timeout timeout
         \<or> sel = sidebar_selector \<and> t = timeout)"
    by (auto simp: budgeted_def)
next
  assume a: "launch = Returns b \<and> r_newContext (env 0) = Returns c \<and> r_newPage (env 0) = Returns p
        \<and> r_addCookies (env 0) = Returns () \<and> r_goto (env 0) = Returns ()
        \<and> r_sidebar (env 0) = Returns False \<and> r_dialog (env 0) = Returns ()
        \<and> r_qrcode (env 0) = Returns ()"
  let ?s = "s\<lparr>am_browser := Some b\<rparr>"
  from a attempt_waits [of ?s b "env 0" c p timeout]
  obtain tr where tr: "calls (login_attempt timeout (env 0) ?s) =
     NewContext b # NewPage c # LoadCookies #
       (if cookie_file ?s = [] then [] else [AddCookies (cookie_file ?s)]) @
       [Goto explore_url (sub_timeout timeout), Query sidebar_selector,
        WaitForSelector login_container Visible (sub_timeout timeout),
        WaitForSelector qrcode_img Visible (sub_timeout timeout),
        WaitForSelector sidebar_selector Visible timeout] @ tr"
    by auto
  have sub: "set (calls (login_attempt timeout (env 0) ?s)) \<subseteq> set (calls (login timeout launch env s))"
    using a loop_prefix [of 0 timeout env ?s] by (auto simp: run_login maxRetries_def)
  show "Goto explore_url (sub_timeout timeout) \<in> set (calls (login timeout launch env s))"
    using sub by (auto simp: tr)
  show "WaitForSelector login_container Visible (sub_timeout timeout)
          \<in> set (calls (login timeout launch env s))"
    using sub by (auto simp: tr)
  show "WaitForSelector qrcode_img Visible (sub_timeout timeout)
          \<in> set (calls (login timeout launch env s))"
    using sub by (auto simp: tr)
  show "WaitForSelector sidebar_selector Visible timeout
          \<in> set (calls (login timeout launch env s))"
    using sub by (auto simp: tr)
next
  assume "30000 \<le> timeout"
  then show "sub_timeout timeout = 10000" by (rule sub_timeout_cap)
next
  assume "n < 2 ^ 53"
  then show "sub_timeout (3 * of_nat n) = min 10000 (of_nat n)" by (rule sub_timeout_exact)
next
  assume "2 powi (- 1022) \<le> timeout / 3"
  then show "\<bar>sub_timeout timeout - min 10000 (timeout / 3)\<bar> \<le> timeout / 3 / 2 ^ 53"
    by (rule sub_timeout_near)
qed

lemma run_login_100:
  "calls (login 100 (Returns 7) (\<lambda>k. env_qr) (new_auth_manager [])) =
     [Launch, NewContext 7, NewPage 2, LoadCookies,
      Goto explore_url (4691249611844267 / 140737488355328), Query sidebar_selector,
      WaitForSelector login_container Visible (4691249611844267 / 140737488355328),
      WaitForSelector qrcode_img Visible (4691249611844267 / 140737488355328),
      WaitForSelector sidebar_selector Visible 100, Evaluate, ContextCookies,
      SaveCookies [Cookie (of_ascii ''web_session'') (of_ascii ''abc'')]]"
  by (simp add: login_def login_loop_unfold [of _ _ 0] attempt_defs run_simps env_qr_def
      new_auth_manager_def maxRetries_def sub_timeout_100)

theorem login_timeout_budget_witness:
  "Goto explore_url 10000 \<in> set (calls (login 60000 (Returns 1) (\<lambda>k. env_qr) (new_auth_manager [])))
   \<and> WaitForSelector login_container Visible 10000
       \<in> set (calls (login 60000 (Returns 1) (\<lambda>k. env_qr) (new_auth_manager [])))
   \<and> WaitForSelector qrcode_img Visible 10000
       \<in> set (calls (login 60000 (Returns 1) (\<lambda>k. env_qr) (new_auth_manager [])))
   \<and> WaitForSelector sidebar_selector Visible 60000
       \<in> set (calls (login 60000 (Returns 1) (\<lambda>k. env_qr) (new_auth_manager [])))
   \<and> WaitForSelector login_container Visible 2000
       \<in> set (calls (login 6000 (Returns 1) (\<lambda>k. env_qr) (new_auth_manager [])))
   \<and> WaitForSelector sidebar_selector Visible 6000
       \<in> set (calls (login 6000 (Returns 1) (\<lambda>k. env_qr) (new_auth_manager [])))
   \<and> \<bar>4691249611844267 / 140737488355328 - 100 / 3\<bar> \<le> (100 / 3 / 2 ^ 53 :: rat)"
proof -
  have six: "sub_timeout 6000 = 2000"
    using login_timeout_budget [where n = 2000] by simp
  have near: "\<bar>4691249611844267 / 140737488355328 - 100 / 3\<bar> \<le> (100 / 3 / 2 ^ 53 :: rat)"
    using login_timeout_budget [where timeout = 100]
    by (simp add: sub_timeout_100 power_int_def power_one_over)
  show ?thesis
    using login_timeout_budget [of 60000 "Returns 1" "\<lambda>k. env_qr" "new_auth_manager []" 1 2 3]
      login_timeout_budget [of 6000 "Returns 1" "\<lambda>k. env_qr" "new_auth_manager []" 1 2 3]
      near
    by (simp add: env_qr_def sub_timeout_60000 six)
qed

theorem login_timeout_budget_counterexample:
  "Goto explore_url (4691249611844267 / 140737488355328)
     \<in> set (calls (login 100 (Returns 7) (\<lambda>k. env_qr) (new_auth_manager [])))
   \<and> Goto explore_url (min 10000 (100 / 3))
     \<notin> set (calls (login 100 (Returns 7) (\<lambda>k. env_qr) (new_auth_manager [])))
   \<and> WaitForSelector login_container Visible (min 10000 (100 / 3))
     \<notin> set (calls (login 100 (Returns 7) (\<lambda>k. env_qr) (new_auth_manager [])))
   \<and> (4691249611844267 / 140737488355328 :: rat) \<noteq> min 10000 (100 / 3)"
  by (simp add: run_login_100)

lemma login_no_browser_close:
  "emits_only (\<lambda>ev. (\<forall>h. ev \<noteq> CloseBrowser h) \<and> (\<forall>d. ev = Sleep d \<longrightarrow> d = 2000))
     (login timeout launch env)"
proof (intro login_emits)
  fix j
  show "emits_only (\<lambda>ev. (\<forall>h. ev \<noteq> CloseBrowser h) \<and> (\<forall>d. ev = Sleep d \<longrightarrow> d = 2000))
     (login_attempt timeout (env j))"
    unfolding attempt_defs by (intro emits_only_intros) simp_all
next
  show "emits_only (\<lambda>ev. (\<forall>h. ev \<noteq> CloseBrowser h) \<and> (\<forall>d. ev = Sleep d \<longrightarrow> d = 2000))
     close_session"
    unfolding close_session_def by (intro emits_only_intros) simp_all
qed simp_all

lemma login_failed_error_parts:
  "Number 3 \<in> set (login_failed_error cause)" "set cause \<subseteq> set (login_failed_error cause)"
  by (auto simp: login_failed_error_def maxRetries_def)

text \<open>
  C3. A run of \<open>login\<close> makes at most 3 attempts (one \<open>newContext\<close> each) and never closes
  the browser. Every pause is of 2000 ms, and there is one between two attempts and no other. An
  error of \<open>login\<close> is that of the launch or, after 3 attempts, the message with the number 3
  and the cause of the third failure. A failed attempt is followed by the closing of its page
  and context, then by the pause and the next attempt, or, for the third, by that error.
\<close>

theorem login_retry_policy:
  "length (filter is_new_context (calls (login timeout launch env s))) \<le> 3
   \<and> (\<forall>h. CloseBrowser h \<notin> set (calls (login timeout launch env s)))
   \<and> (\<forall>d. Sleep d \<in> set (calls (login timeout launch env s)) \<longrightarrow> d = 2000)
   \<and> length (filter is_sleep (calls (login timeout launch env s)))
       = length (filter is_new_context (calls (login timeout launch env s))) - 1
   \<and> (\<forall>err. result (login timeout launch env s) = Inl err \<longrightarrow>
         (\<exists>m. launch = Throws m \<and> err = [Text m])
         \<or> length (filter is_new_context (calls (login timeout launch env s))) = 3
            \<and> Number 3 \<in> set err
            \<and> (\<exists>cause s'. result (login_attempt timeout (env 2) s') = Inl cause
                  \<and> err = login_failed_error cause \<and> set cause \<subseteq> set err))
   \<and> (\<forall>k s' cause. k < 3 \<and> result (login_attempt timeout (env k) s') = Inl cause \<longrightarrow>
         calls (login_loop timeout env k s') =
           calls (login_attempt timeout (env k) s')
           @ close_calls (final (login_attempt timeout (env k) s'))
           @ (if k + 1 < 3
              then Sleep 2000 # calls (login_loop timeout env (k + 1)
                     (final (login_attempt timeout (env k) s')))
              else [])
         \<and> (k + 1 = 3 \<longrightarrow>
              result (login_loop timeout env k s') = Inl (login_failed_error cause)))"
proof -
  let ?R = "login timeout launch env s"
  have quiet: "\<forall>ev \<in> set (calls ?R). (\<forall>h. ev \<noteq> CloseBrowser h) \<and> (\<forall>d. ev = Sleep d \<longrightarrow> d = 2000)"
    using login_no_browser_close [of timeout launch env] by (simp add: emits_only_def)
  have counts: "length (filter is_new_context (calls ?R)) \<le> 3
     \<and> length (filter is_sleep (calls ?R)) = length (filter is_new_context (calls ?R)) - 1
     \<and> (\<forall>err. result ?R = Inl err \<longrightarrow>
         (\<exists>m. launch = Throws m \<and> err = [Text m])
         \<or> length (filter is_new_context (calls ?R)) = 3
            \<and> Number 3 \<in> set err
            \<and> (\<exists>cause s'. result (login_attempt timeout (env 2) s') = Inl cause
                  \<and> err = login_failed_error cause \<and> set cause \<subseteq> set err))"
  proof (cases launch)
    case (Throws m)
    then show ?thesis
      by (simp add: run_login_Throws is_new_context_def is_sleep_def)
  next
    case (Returns b)
    let ?s = "s\<lparr>am_browser := Some b\<rparr>"
    let ?L = "login_loop timeout env 0 ?s"
    have b: "am_browser ?s \<noteq> None" by simp
    note lc = loop_counts [OF b, of timeout env 0]
    have c1: "length (filter is_new_context (calls ?R)) \<le> 3"
      using lc Returns by (simp add: run_login maxRetries_def is_new_context_def)
    have c2: "length (filter is_sleep (calls ?R)) = length (filter is_new_context (calls ?R)) - 1"
      using lc Returns by (simp add: run_login is_sleep_def is_new_context_def)
    have c3: "\<forall>err. result ?R = Inl err \<longrightarrow>
         (\<exists>m. launch = Throws m \<and> err = [Text m])
         \<or> length (filter is_new_context (calls ?R)) = 3
            \<and> Number 3 \<in> set err
            \<and> (\<exists>cause s'. result (login_attempt timeout (env 2) s') = Inl cause
                  \<and> err = login_failed_error cause \<and> set cause \<subseteq> set err)"
    proof (intro allI impI)
      fix err assume "result ?R = Inl err"
      then have e: "result ?L = Inl err" using Returns by (simp add: run_login)
      with lc have n: "length (filter is_new_context (calls ?L)) = maxRetries - 0"
        and ex: "\<exists>cause s'. am_browser s' = am_browser ?s
                \<and> result (login_attempt timeout (env (maxRetries - 1)) s') = Inl cause
                \<and> err = login_failed_error cause" by blast+
      from ex obtain cause s' where
        cs: "result (login_attempt timeout (env (maxRetries - 1)) s') = Inl cause"
          "err = login_failed_error cause" by blast
      have two: "maxRetries - 1 = 2" by (simp add: maxRetries_def)
      have "length (filter is_new_context (calls ?R)) = 3"
        using n Returns by (simp add: run_login maxRetries_def is_new_context_def)
      moreover have "Number 3 \<in> set err" "set cause \<subseteq> set err"
        using cs(2) login_failed_error_parts by simp_all
      moreover have "result (login_attempt timeout (env 2) s') = Inl cause"
        using cs(1) unfolding two .
      ultimately show "(\<exists>m. launch = Throws m \<and> err = [Text m])
         \<or> length (filter is_new_context (calls ?R)) = 3
            \<and> Number 3 \<in> set err
            \<and> (\<exists>cause s'. result (login_attempt timeout (env 2) s') = Inl cause
                  \<and> err = login_failed_error cause \<and> set cause \<subseteq> set err)"
        using cs(2) by blast
    qed
    from c1 c2 c3 show ?thesis by blast
  qed
  have step: "\<forall>k s' cause. k < 3 \<and> result (login_attempt timeout (env k) s') = Inl cause \<longrightarrow>
         calls (login_loop timeout env k s') =
           calls (login_attempt timeout (env k) s')
           @ close_calls (final (login_attempt timeout (env k) s'))
           @ (if k + 1 < 3
              then Sleep 2000 # calls (login_loop timeout env (k + 1)
                     (final (login_attempt timeout (env k) s')))
              else [])
         \<and> (k + 1 = 3 \<longrightarrow>
              result (login_loop timeout env k s') = Inl (login_failed_error cause))"
  proof (intro allI impI)
    fix k s' cause
    assume a: "k < 3 \<and> result (login_attempt timeout (env k) s') = Inl cause"
    then have k: "k < maxRetries" by (simp add: maxRetries_def)
    from a have f: "result (login_attempt timeout (env k) s') = Inl cause" by simp
    note st = loop_failure [where k = k and env = env and s = s' and timeout = timeout, OF k f]
    have p1: "calls (login_loop timeout env k s') =
           calls (login_attempt timeout (env k) s')
           @ close_calls (final (login_attempt timeout (env k) s'))
           @ (if k + 1 < 3
              then Sleep 2000 # calls (login_loop timeout env (k + 1)
                     (final (login_attempt timeout (env k) s')))
              else [])"
      using st(1) by (simp add: maxRetries_def)
    have p2: "k + 1 = 3 \<longrightarrow> result (login_loop timeout env k s') = Inl (login_failed_error cause)"
    proof
      assume "k + 1 = 3"
      then have "\<not> k + 1 < maxRetries" by (simp add: maxRetries_def)
      with st(2) show "result (login_loop timeout env k s') = Inl (login_failed_error cause)"
        by simp
    qed
    from p1 p2 show "calls (login_loop timeout env k s') =
           calls (login_attempt timeout (env k) s')
           @ close_calls (final (login_attempt timeout (env k) s'))
           @ (if k + 1 < 3
              then Sleep 2000 # calls (login_loop timeout env (k + 1)
                     (final (login_attempt timeout (env k) s')))
              else [])
         \<and> (k + 1 = 3 \<longrightarrow>
              result (login_loop timeout env k s') = Inl (login_failed_error cause))"
      by (rule conjI)
  qed
  from quiet counts step show ?thesis by blast
qed

lemma env_timeouts_simps:
  "r_newContext (env_timeouts k) = Returns (10 + k)" "r_newPage (env_timeouts k) = Returns (20 + k)"
  "r_addCookies (env_timeouts k) = Returns ()" "r_goto (env_timeouts k) = Returns ()"
  "r_sidebar (env_timeouts k) = Returns False"
  "r_dialog (env_timeouts k) = (if k = 0 then Throws (of_ascii ''Timeout'') else Returns ())"
  "r_qrcode (env_timeouts k) = (if k = 1 then Throws (of_ascii ''Timeout'') else Returns ())"
  "r_human (env_timeouts k) = (if k = 2 then Throws (of_ascii ''Timeout'') else Returns ())"
  by (simp_all add: env_timeouts_def)

lemma run_timeouts:
  "login 60000 (Returns 7) env_timeouts (new_auth_manager []) =
     (Inl (login_failed_error (human_timeout_error 60000 [Text (of_ascii ''Timeout'')])),
      \<lparr>am_browser = Some 7, am_context = Some 12, am_page = Some 22, cookie_file = []\<rparr>,
      [Launch,
       NewContext 7, NewPage 10, LoadCookies, Goto explore_url 10000, Query sidebar_selector,
       WaitForSelector login_container Visible 10000,
       ClosePage 20, CloseContext 10, Sleep 2000,
       NewContext 7, NewPage 11, LoadCookies, Goto explore_url 10000, Query sidebar_selector,
       WaitForSelector login_container Visible 10000, WaitForSelector qrcode_img Visible 10000,
       ClosePage 21, CloseContext 11, Sleep 2000,
       NewContext 7, NewPage 12, LoadCookies, Goto explore_url 10000, Query sidebar_selector,
       WaitForSelector login_container Visible 10000, WaitForSelector qrcode_img Visible 10000,
       WaitForSelector sidebar_selector Visible 60000,
       ClosePage 22, CloseContext 12])"
  by (rule run_eqI)
     (simp_all add: login_def login_loop_unfold [of _ _ 0] login_loop_unfold [of _ _ "Suc 0"]
        login_loop_unfold [of _ _ "Suc (Suc 0)"] attempt_defs close_session_def run_simps
        env_timeouts_simps new_auth_manager_def maxRetries_def sub_timeout_60000)

theorem login_retry_policy_witness:
  "result (login 60000 (Returns 7) env_timeouts (new_auth_manager []))
     = Inl (login_failed_error (human_timeout_error 60000 [Text (of_ascii ''Timeout'')]))
   \<and> length (filter is_new_context (calls (login 60000 (Returns 7) env_timeouts (new_auth_manager [])))) = 3
   \<and> length (filter is_sleep (calls (login 60000 (Returns 7) env_timeouts (new_auth_manager [])))) = 2
   \<and> Number 3 \<in> set (login_failed_error (human_timeout_error 60000 [Text (of_ascii ''Timeout'')]))
   \<and> Number 60000 \<in> set (login_failed_error (human_timeout_error 60000 [Text (of_ascii ''Timeout'')]))
   \<and> calls (login 60000 (Returns 7) env_timeouts (new_auth_manager [])) =
      [Launch,
       NewContext 7, NewPage 10, LoadCookies, Goto explore_url 10000, Query sidebar_selector,
       WaitForSelector login_container Visible 10000,
       ClosePage 20, CloseContext 10, Sleep 2000,
       NewContext 7, NewPage 11, LoadCookies, Goto explore_url 10000, Query sidebar_selector,
       WaitForSelector login_container Visible 10000, WaitForSelector qrcode_img Visible 10000,
       ClosePage 21, CloseContext 11, Sleep 2000,
       NewContext 7, NewPage 12, LoadCookies, Goto explore_url 10000, Query sidebar_selector,
       WaitForSelector login_container Visible 10000, WaitForSelector qrcode_img Visible 10000,
       WaitForSelector sidebar_selector Visible 60000,
       ClosePage 22, CloseContext 12]"
  using login_retry_policy [of 60000 "Returns 7" env_timeouts "new_auth_manager []"]
  by (simp add: run_timeouts is_new_context_def is_sleep_def login_failed_error_def
      human_timeout_error_def)

lemma bind_await_Returns: "bind (await ev (Returns v)) f = bind (emit ev) (\<lambda>_. f v)"
  by (rule ext) (simp add: bind_def await_def emit_def)

lemma attempt_replay_quiet:
  assumes "probe_positive e"
  shows "emits_only (\<lambda>ev. \<not> is_selector_wait ev) (login_attempt timeout e)"
proof -
  have c: "\<And>c. emits_only (\<lambda>ev. \<not> is_selector_wait ev) (login_in_context timeout e c)"
    using assms unfolding login_in_context_def persist_cookies_def probe_positive_def
    apply (simp add: bind_await_Returns)
    apply (intro emits_only_intros)
    apply (simp_all add: is_selector_wait_def)
    done
  show ?thesis
    unfolding login_attempt_def
    by (intro emits_only_intros c) (simp_all add: is_selector_wait_def)
qed

lemma login_replay_quiet:
  assumes "\<forall>k<3. probe_positive (env k)"
  shows "emits_only (\<lambda>ev. \<not> is_selector_wait ev) (login timeout launch env)"
proof (intro login_emits)
  fix j assume "j < maxRetries"
  then have "probe_positive (env j)" using assms by (simp add: maxRetries_def)
  then show "emits_only (\<lambda>ev. \<not> is_selector_wait ev) (login_attempt timeout (env j))"
    by (rule attempt_replay_quiet)
next
  show "emits_only (\<lambda>ev. \<not> is_selector_wait ev) close_session"
    unfolding close_session_def by (intro emits_only_intros) (simp_all add: is_selector_wait_def)
qed (simp_all add: is_selector_wait_def)

lemma attempt_replay:
  assumes "am_browser s = Some b" "replays e c p cs"
  shows "result (login_attempt timeout e s) = Inr ()"
    and "final (login_attempt timeout e s) = s\<lparr>am_context := Some c, am_page := Some p, cookie_file := cs\<rparr>"
    and "Launch # calls (login_attempt timeout e s) = replay_calls timeout b c (cookie_file s) cs"
  using assms
  by (simp_all add: replays_def probe_positive_def attempt_defs run_simps replay_calls_def)

lemma login_replay:
  assumes "launch = Returns b" "replays (env 0) c p cs"
  shows "result (login timeout launch env s) = Inr ()"
    and "final (login timeout launch env s)
           = s\<lparr>am_browser := Some b, am_context := Some c, am_page := Some p, cookie_file := cs\<rparr>"
    and "calls (login timeout launch env s) = replay_calls timeout b c (cookie_file s) cs"
proof -
  let ?s = "s\<lparr>am_browser := Some b\<rparr>"
  have b: "am_browser ?s = Some b" by simp
  note at = attempt_replay [where e = "env 0" and timeout = timeout, OF b assms(2)]
  have "login_loop timeout env 0 ?s = login_attempt timeout (env 0) ?s"
    using at(1) by (intro loop_success) (simp_all add: maxRetries_def)
  then show "result (login timeout launch env s) = Inr ()"
    and "final (login timeout launch env s)
           = s\<lparr>am_browser := Some b, am_context := Some c, am_page := Some p, cookie_file := cs\<rparr>"
    and "calls (login timeout launch env s) = replay_calls timeout b c (cookie_file s) cs"
    using at assms(1) by (simp_all add: run_login)
qed

text \<open>
  C7. When the identity probe of the landing page is positive in every attempt (the persisted
  cookies are valid), neither of two calls of \<open>login\<close> in a row waits for any selector: no
  login dialog, QR code or human. When moreover the first attempt of each goes through, each
  call returns, and its calls are the launch, the new context and page, the replay of the
  persisted cookies, the navigation, the probe, and the saving of the cookies, the second call
  replaying what the first saved.
\<close>

theorem login_cookie_replay:
  "((\<forall>k<3. probe_positive (env1 k)) \<and> (\<forall>k<3. probe_positive (env2 k)) \<longrightarrow>
      (\<forall>ev \<in> set (calls (login timeout launch1 env1 s))
            \<union> set (calls (login timeout launch2 env2 (final (login timeout launch1 env1 s)))).
         \<forall>sel st t. ev \<noteq> WaitForSelector sel st t))
   \<and> (launch1 = Returns b1 \<and> replays (env1 0) c1 p1 cs1
       \<and> launch2 = Returns b2 \<and> replays (env2 0) c2 p2 cs2 \<longrightarrow>
        result (login timeout launch1 env1 s) = Inr ()
        \<and> calls (login timeout launch1 env1 s) = replay_calls timeout b1 c1 (cookie_file s) cs1
        \<and> cookie_file (final (login timeout launch1 env1 s)) = cs1
        \<and> result (login timeout launch2 env2 (final (login timeout launch1 env1 s))) = Inr ()
        \<and> calls (login timeout launch2 env2 (final (login timeout launch1 env1 s)))
            = replay_calls timeout b2 c2 cs1 cs2)"
proof (intro conjI impI)
  assume a: "(\<forall>k<3. probe_positive (env1 k)) \<and> (\<forall>k<3. probe_positive (env2 k))"
  have q1: "emits_only (\<lambda>ev. \<not> is_selector_wait ev) (login timeout launch1 env1)"
    using a by (intro login_replay_quiet) simp
  have q2: "emits_only (\<lambda>ev. \<not> is_selector_wait ev) (login timeout launch2 env2)"
    using a by (intro login_replay_quiet) simp
  show "\<forall>ev \<in> set (calls (login timeout launch1 env1 s))
            \<union> set (calls (login timeout launch2 env2 (final (login timeout launch1 env1 s)))).
         \<forall>sel st t. ev \<noteq> WaitForSelector sel st t"
    using emits_onlyD [OF q1] emits_onlyD [OF q2]
    by (fastforce simp: is_selector_wait_def)
next
  assume a: "launch1 = Returns b1 \<and> replays (env1 0) c1 p1 cs1
       \<and> launch2 = Returns b2 \<and> replays (env2 0) c2 p2 cs2"
  then have l1: "launch1 = Returns b1" and r1: "replays (env1 0) c1 p1 cs1"
    and l2: "launch2 = Returns b2" and r2: "replays (env2 0) c2 p2 cs2" by simp_all
  note first = login_replay [where env = env1 and timeout = timeout and s = s, OF l1 r1]
  note second = login_replay [where env = env2 and timeout = timeout
      and s = "final (login timeout launch1 env1 s)", OF l2 r2]
  show "result (login timeout launch1 env1 s) = Inr ()" by (rule first(1))
  show "calls (login timeout launch1 env1 s) = replay_calls timeout b1 c1 (cookie_file s) cs1"
    by (rule first(3))
  show "cookie_file (final (login timeout launch1 env1 s)) = cs1" by (simp add: first(2))
  show "result (login timeout launch2 env2 (final (login timeout launch1 env1 s))) = Inr ()"
    by (rule second(1))
  show "calls (login timeout launch2 env2 (final (login timeout launch1 env1 s)))
            = replay_calls timeout b2 c2 cs1 cs2"
    using second(3) by (simp add: first(2))
qed

theorem login_cookie_replay_witness:
  "probe_positive env_valid
   \<and> result (login 60000 (Returns 7) (\<lambda>k. env_valid) (new_auth_manager persisted)) = Inr ()
   \<and> calls (login 60000 (Returns 7) (\<lambda>k. env_valid) (new_auth_manager persisted)) =
       [Launch, NewContext 7, NewPage 2, LoadCookies, AddCookies persisted,
        Goto explore_url 10000, Query sidebar_selector, Evaluate, ContextCookies,
        SaveCookies [Cookie (of_ascii ''web_session'') (of_ascii ''abc''),
                     Cookie (of_ascii ''a1'') (of_ascii ''xyz'')]]
   \<and> result (login 60000 (Returns 8) (\<lambda>k. env_valid)
        (final (login 60000 (Returns 7) (\<lambda>k. env_valid) (new_auth_manager persisted)))) = Inr ()
   \<and> calls (login 60000 (Returns 8) (\<lambda>k. env_valid)
        (final (login 60000 (Returns 7) (\<lambda>k. env_valid) (new_auth_manager persisted)))) =
       [Launch, NewContext 8, NewPage 2, LoadCookies,
        AddCookies [Cookie (of_ascii ''web_session'') (of_ascii ''abc''),
                    Cookie (of_ascii ''a1'') (of_ascii ''xyz'')],
        Goto explore_url 10000, Query sidebar_selector, Evaluate, ContextCookies,
        SaveCookies [Cookie (of_ascii ''web_session'') (of_ascii ''abc''),
                     Cookie (of_ascii ''a1'') (of_ascii ''xyz'')]]"
proof -
  have p: "probe_positive env_valid"
    by (simp add: probe_positive_def env_valid_def)
  have r: "replays env_valid 2 3 [Cookie (of_ascii ''web_session'') (of_ascii ''abc''),
                     Cookie (of_ascii ''a1'') (of_ascii ''xyz'')]"
    by (simp add: replays_def probe_positive_def env_valid_def)
  show ?thesis
    using p r login_cookie_replay [of "\<lambda>k. env_valid" "\<lambda>k. env_valid" 60000 "Returns 7"
        "new_auth_manager persisted" "Returns 8" 7 2 3
        "[Cookie (of_ascii ''web_session'') (of_ascii ''abc''), Cookie (of_ascii ''a1'') (of_ascii ''xyz'')]"
        8 2 3
        "[Cookie (of_ascii ''web_session'') (of_ascii ''abc''), Cookie (of_ascii ''a1'') (of_ascii ''xyz'')]"]
    by (simp add: replay_calls_def new_auth_manager_def persisted_def sub_timeout_60000)
qed

lemma run_getBrowser:
  "am_browser a = None \<Longrightarrow> launch = Returns b \<Longrightarrow>
     result (getBrowser launch a) = Inr b \<and> final (getBrowser launch a) = a\<lparr>am_browser := Some b\<rparr>
     \<and> calls (getBrowser launch a) = [Launch]"
  "am_browser a = Some b \<Longrightarrow>
     result (getBrowser launch a) = Inr b \<and> final (getBrowser launch a) = a
     \<and> calls (getBrowser launch a) = []"
  by (simp_all add: getBrowser_def run_simps)

lemma or_default_idem: "or_default (Some (or_default t d)) d = or_default t d"
  by (simp add: or_default_def split: option.splits)

lemma run_initialize:
  assumes "init_ok e s b p"
  shows "result (initialize e (Some (or_default t (rt_timeout s))) s) = Inr ()"
    and "final (initialize e (Some (or_default t (rt_timeout s))) s) = after_init s b p"
    and "calls (initialize e (Some (or_default t (rt_timeout s))) s)
           = init_calls s b (or_default t (rt_timeout s))"
  using assms
  by (cases "am_browser (authManager s)";
      simp add: init_ok_def initialize_def getBrowser_def getCookies_def run_simps init_calls_def
        after_init_def or_default_idem not_logged_in_def)+

lemma close_dialog_final: "final (close_dialog f c d s) = s"
  by (cases f; cases c; cases d) (simp_all add: close_dialog_def run_simps)

lemma close_dialog_result:
  "(result (close_dialog f c d s) = Inr ()) = dialog_closes f c d"
  by (cases f; cases c; cases d) (auto simp: close_dialog_def run_simps dialog_closes_def)

lemma item_try_final: "final (item_try i e (t, notes)) = (t, notes @ item_note e)"
  by (cases "it_click e"; cases "it_open e"; cases "it_extract e")
     (auto simp: item_try_def run_simps item_note_def close_dialog_final split: option.splits)

lemma item_try_result: "(result (item_try i e s) = Inr ()) = try_ok e"
  by (cases "it_click e"; cases "it_open e"; cases "it_extract e")
     (auto simp: item_try_def run_simps try_ok_def close_dialog_result split: option.splits)

lemma process_item_final: "final (process_item i e (t, notes)) = (t, notes @ item_note e)"
  by (simp add: process_item_def run_simps item_try_final close_dialog_final split: sum.splits)

lemma process_item_result: "(result (process_item i e s) = Inr ()) = item_survives e"
  using item_try_result [of i e s]
  by (cases "result (item_try i e s)")
     (auto simp: process_item_def run_simps item_survives_def close_dialog_result)

lemma iteration_cond: "(of_nat i < (limit :: rat)) = (i < nat \<lceil>limit\<rceil>)"
proof -
  have "(of_nat i < limit) = (int i < \<lceil>limit\<rceil>)"
    by (simp add: less_ceiling_iff)
  then show ?thesis by auto
qed

lemma process_notes_unfold:
  "process_notes limit noteItems i =
     (if of_nat i < min (of_nat (length noteItems)) limit then
        bind (process_item i (noteItems ! i)) (\<lambda>_. process_notes limit noteItems (i + 1))
      else ret ())"
  by (rule ext) (subst process_notes.simps, simp)

lemma process_notes_run:
  assumes "\<forall>e \<in> set (drop i (take (nat \<lceil>limit\<rceil>) items)). item_survives e"
  shows "result (process_notes limit items i (t, ns)) = Inr ()
    \<and> final (process_notes limit items i (t, ns))
        = (t, ns @ concat (map item_note (drop i (take (nat \<lceil>limit\<rceil>) items))))"
  using assms
proof (induction "length items - i" arbitrary: i ns)
  case 0
  then have "\<not> (i < length items \<and> i < nat \<lceil>limit\<rceil>)" by simp
  then show ?case
    by (subst (1 2) process_notes_unfold) (auto simp: iteration_cond run_simps)
next
  case (Suc n)
  show ?case
  proof (cases "i < length items \<and> i < nat \<lceil>limit\<rceil>")
    case False
    then show ?thesis
      by (subst (1 2) process_notes_unfold) (auto simp: iteration_cond run_simps)
  next
    case True
    let ?xs = "take (nat \<lceil>limit\<rceil>) items"
    have i: "i < length ?xs" using True by simp
    have d: "drop i ?xs = items ! i # drop (i + 1) ?xs"
      using i Cons_nth_drop_Suc [of i ?xs] by simp
    have sv: "item_survives (items ! i)" using Suc.prems by (simp add: d)
    have rest: "\<forall>e \<in> set (drop (i + 1) ?xs). item_survives e"
      using Suc.prems by (simp add: d)
    have n: "n = length items - (i + 1)" using Suc.hyps(2) by simp
    note IH = Suc.hyps(1) [OF n rest, of "ns @ item_note (items ! i)"]
    have r: "result (process_item i (items ! i) (t, ns)) = Inr ()"
      using sv by (simp add: process_item_result)
    show ?thesis
      using True IH
      by (subst (1 2) process_notes_unfold)
         (simp add: iteration_cond run_simps r process_item_final d)
  qed
qed

lemma after_init_simps:
  "rt_page (after_init s b p) = Some p" "rt_browser (after_init s b p) = Some b"
  "rt_timeout (after_init s b p) = rt_timeout s"
  by (simp_all add: after_init_def)

lemma run_cleanup:
  "rt_browser s = Some b \<Longrightarrow>
     result (cleanup s) = Inr () \<and> final (cleanup s) = s\<lparr>rt_browser := None, rt_page := None\<rparr>
     \<and> calls (cleanup s) = [CloseBrowser b]"
  by (simp add: cleanup_def run_simps)

lemma cleanup_result: "result (cleanup s) = Inr ()"
  by (simp add: cleanup_def run_simps split: option.splits)

subsection \<open>The frame of a workflow\<close>

text \<open>A \<open>catch\<close> block that only logs and throws the error again.\<close>

lemma rethrow: "try_catch m throw = m"
  by (rule ext) (simp add: try_catch_def throw_def split: prod.splits sum.splits)

lemma searchNotes_workflow:
  "searchNotes e keywords limit timeout =
     workflow (s_init e) timeout
       (\<lambda>T. with_notes (search_body e keywords (case limit of None \<Rightarrow> 10 | Some l \<Rightarrow> l) T))"
  by (simp add: searchNotes_def workflow_def)

lemma getNoteContent_workflow:
  "getNoteContent e url timeout = workflow (c_init e) timeout (content_body e url)"
  unfolding getNoteContent_def workflow_def rethrow ..

lemma getNoteComments_workflow:
  "getNoteComments e url timeout = workflow (m_init e) timeout (comments_body e url)"
  unfolding getNoteComments_def workflow_def rethrow ..

lemma workflow_result:
  assumes "enters_try ie timeout s"
  shows "result (workflow ie timeout body s)
     = result (body (or_default timeout (rt_timeout s)) (initialized ie timeout s))"
  using assms
  by (auto simp: enters_try_def initialized_def workflow_def run_simps cleanup_result)

lemma workflow_calls:
  assumes "enters_try ie timeout s"
  shows "calls (workflow ie timeout body s)
     = calls (initialize ie (Some (or_default timeout (rt_timeout s))) s)
       @ calls (body (or_default timeout (rt_timeout s)) (initialized ie timeout s))
       @ calls (cleanup (final (body (or_default timeout (rt_timeout s))
           (initialized ie timeout s))))"
  using assms
  by (auto simp: enters_try_def initialized_def workflow_def run_simps)

lemma workflow_final:
  assumes "enters_try ie timeout s"
  shows "final (workflow ie timeout body s)
     = final (cleanup (final (body (or_default timeout (rt_timeout s))
         (initialized ie timeout s))))"
  using assms
  by (auto simp: enters_try_def initialized_def workflow_def run_simps)


lemma init_ok_enters:
  assumes "init_ok e s b p"
  shows "enters_try e timeout s" and "initialized e timeout s = after_init s b p"
  using run_initialize [OF assms, of timeout]
  by (simp_all add: enters_try_def initialized_def after_init_simps)

subsection \<open>The search\<close>

lemma search_open_result:
  assumes "encodeURIComponent keywords \<noteq> None" "s_goto e = Returns ()"
    "s_container e = Returns ()"
  shows "result (search_open e keywords T s) = Inr ()" "final (search_open e keywords T s) = s"
  using assms by (auto simp: search_open_def run_simps)

lemma search_body_result:
  assumes "encodeURIComponent keywords \<noteq> None"
    "s_goto e = Returns ()" "s_container e = Returns ()" "s_items e = Returns items"
    "\<forall>it \<in> set (take (nat \<lceil>limit\<rceil>) items). item_survives it"
  shows "result (search_body e keywords limit T (t, [])) =
     Inr (concat (map item_note (take (nat \<lceil>limit\<rceil>) items)))"
  using assms(4,5) process_notes_run [of 0 limit items t "[]"]
    search_open_result [OF assms(1-3)]
  by (simp add: search_body_def run_simps)

lemma length_item_notes: "length (concat (map item_note xs)) \<le> length xs"
  by (induction xs) (auto simp: item_note_def split: outcome.splits option.splits)

lemma searchNotes_result:
  assumes "enters_try (s_init e) timeout s" and "encodeURIComponent query \<noteq> None"
    and "s_goto e = Returns ()" and "s_container e = Returns ()" and "s_items e = Returns items"
    and "\<forall>it \<in> set (take (nat \<lceil>limit\<rceil>) items). item_survives it"
  shows "result (searchNotes e query (Some limit) timeout s) =
           Inr (concat (map item_note (take (nat \<lceil>limit\<rceil>) items)))"
  unfolding searchNotes_workflow workflow_result [OF assms(1)]
  using search_body_result [OF assms(2-6)]
  by (simp add: run_with_notes)

text \<open>
  C1, as the code has it. A search that enters its \<open>try\<close> block (\<open>initialize\<close> returns and
  there is a page), whose query \<open>encodeURIComponent\<close> accepts, whose navigation and wait for
  the results succeed and whose \<open>$$\<close> resolves with \<open>items\<close>, goes through the first
  \<open>\<lceil>limit\<rceil>\<close> of them (no more than there are). If each of these survives, that is, its
  \<open>try\<close> block completes or the closing of the dialog in its \<open>catch\<close> block does, the call
  returns the notes that these items pushed, in order: none for an item whose click, wait or
  extraction throws or whose extraction is \<open>null\<close>, and the note of an item even when
  closing its dialog throws afterwards.
\<close>

theorem searchNotes_partial_results:
  assumes "enters_try (s_init e) timeout s" and "encodeURIComponent query \<noteq> None"
    and "s_goto e = Returns ()" and "s_container e = Returns ()" and "s_items e = Returns items"
    and "\<forall>it \<in> set (take (nat \<lceil>limit\<rceil>) items). item_survives it"
  shows "result (searchNotes e query (Some limit) timeout s) =
           Inr (concat (map item_note (take (nat \<lceil>limit\<rceil>) items)))
    \<and> length (concat (map item_note (take (nat \<lceil>limit\<rceil>) items))) \<le> nat \<lceil>limit\<rceil>
    \<and> length (concat (map item_note (take (nat \<lceil>limit\<rceil>) items))) \<le> length items
    \<and> (\<forall>L. limit = of_nat L \<longrightarrow>
          length (concat (map item_note (take (nat \<lceil>limit\<rceil>) items))) \<le> L)"
proof -
  have l1: "length (concat (map item_note (take (nat \<lceil>limit\<rceil>) items))) \<le> nat \<lceil>limit\<rceil>"
    using length_item_notes [of "take (nat \<lceil>limit\<rceil>) items"] by simp
  have l2: "length (concat (map item_note (take (nat \<lceil>limit\<rceil>) items))) \<le> length items"
    using length_item_notes [of "take (nat \<lceil>limit\<rceil>) items"] by simp
  from searchNotes_result [OF assms] l1 l2 show ?thesis by auto
qed

lemma init_fine_ok: "init_ok init_fine tools0 5 6"
  by (simp add: init_ok_def init_fine_def tools0_def new_rednote_tools_def new_auth_manager_def)

lemma tools_held_enters:
  "enters_try ie timeout tools_held" "initialized ie timeout tools_held = tools_held"
  by (simp_all add: enters_try_def initialized_def initialize_def run_simps tools_held_def)

lemma item_fine_survives: "item_survives (item_fine k)" "item_note (item_fine k) = [sample_note k]"
  by (simp_all add: item_survives_def try_ok_def dialog_closes_def item_fine_def item_note_def)

lemma encode_tea: "encodeURIComponent (of_ascii ''tea'') = Some (of_ascii ''tea'')"
  by (simp add: of_ascii_def uri_unescaped_def)

theorem searchNotes_partial_results_witness:
  "length (twenty item_extract_throws) = 20
   \<and> \<not> try_ok item_extract_throws
   \<and> result (searchNotes (env_search (twenty item_extract_throws)) (of_ascii ''tea'') (Some 5) None tools0)
       = Inr [sample_note 0, sample_note 1, sample_note 3, sample_note 4]
   \<and> result (searchNotes (env_search (twenty item_extract_throws)) (of_ascii ''tea'') (Some 5) None
        tools_held)
       = Inr [sample_note 0, sample_note 1, sample_note 3, sample_note 4]"
proof -
  have s: "item_survives item_extract_throws" "item_note item_extract_throws = []"
    "\<not> try_ok item_extract_throws"
    by (simp_all add: item_survives_def try_ok_def dialog_closes_def item_extract_throws_def
        item_fine_def item_note_def)
  have five: "nat \<lceil>5 :: rat\<rceil> = 5" by simp
  have all: "\<forall>it \<in> set (take (nat \<lceil>5 :: rat\<rceil>) (twenty item_extract_throws)). item_survives it"
    unfolding five by (simp add: twenty_def item_fine_survives s)
  have i: "enters_try (s_init (env_search (twenty item_extract_throws))) None tools0"
    using init_ok_enters(1) [OF init_fine_ok] by (simp add: env_search_def)
  have h: "enters_try (s_init (env_search (twenty item_extract_throws))) None tools_held"
    by (rule tools_held_enters)
  have e: "s_goto (env_search (twenty item_extract_throws)) = Returns ()"
    "s_container (env_search (twenty item_extract_throws)) = Returns ()"
    "s_items (env_search (twenty item_extract_throws)) = Returns (twenty item_extract_throws)"
    by (simp_all add: env_search_def)
  have c: "concat (map item_note (take 5 (twenty item_extract_throws)))
      = [sample_note 0, sample_note 1, sample_note 3, sample_note 4]"
    by (simp add: twenty_def item_fine_survives s)
  show ?thesis
    using searchNotes_partial_results [where e = "env_search (twenty item_extract_throws)"
        and s = tools0 and items = "twenty item_extract_throws" and limit = 5
        and timeout = None and query = "of_ascii ''tea''"]
      searchNotes_partial_results [where e = "env_search (twenty item_extract_throws)"
        and s = tools_held and items = "twenty item_extract_throws" and limit = 5
        and timeout = None and query = "of_ascii ''tea''"]
      i h e all c s(3) unfolding five
    by (simp add: encode_tea) (simp add: twenty_def)
qed

lemma searchNotes_body_failure:
  assumes "enters_try (s_init e) timeout s"
    and "result (search_body e keywords limit (or_default timeout (rt_timeout s))
           (initialized (s_init e) timeout s, [])) = Inl err"
  shows "result (searchNotes e keywords (Some limit) timeout s) = Inl err"
  unfolding searchNotes_workflow workflow_result [OF assms(1)]
  using assms(2) by (simp add: run_with_notes)

theorem searchNotes_partial_results_counterexample:
  "\<not> try_ok item_close_throws
   \<and> result (searchNotes (env_search (twenty item_close_throws)) (of_ascii ''tea'') (Some 5) None tools0)
       = Inr [sample_note 0, sample_note 1, sample_note 2, sample_note 3, sample_note 4]
   \<and> result (searchNotes (env_search (twenty item_recovery_throws)) (of_ascii ''tea'') (Some 5) None tools0)
       = Inl [Text (of_ascii ''Timeout 30000ms exceeded'')]"
proof -
  have s: "item_survives item_close_throws" "item_note item_close_throws = [sample_note 2]"
    "\<not> try_ok item_close_throws"
    by (simp_all add: item_survives_def try_ok_def dialog_closes_def item_close_throws_def
        item_fine_def item_note_def)
  have five: "nat \<lceil>5 :: rat\<rceil> = 5" by simp
  have all: "\<forall>it \<in> set (take (nat \<lceil>5 :: rat\<rceil>) (twenty item_close_throws)). item_survives it"
    unfolding five by (simp add: twenty_def item_fine_survives s)
  have i: "enters_try (s_init (env_search items)) None tools0" for items
    using init_ok_enters(1) [OF init_fine_ok] by (simp add: env_search_def)
  have e: "s_goto (env_search (twenty item_close_throws)) = Returns ()"
    "s_container (env_search (twenty item_close_throws)) = Returns ()"
    "s_items (env_search (twenty item_close_throws)) = Returns (twenty item_close_throws)"
    by (simp_all add: env_search_def)
  have kept: "result (searchNotes (env_search (twenty item_close_throws)) (of_ascii ''tea'') (Some 5) None tools0)
       = Inr [sample_note 0, sample_note 1, sample_note 2, sample_note 3, sample_note 4]"
    using searchNotes_result [OF i _ e all, of "of_ascii ''tea''"] unfolding five
    by (simp add: encode_tea) (simp add: twenty_def item_fine_survives s)
  have body: "result (search_body (env_search (twenty item_recovery_throws)) (of_ascii ''tea'') 5
        (or_default None (rt_timeout tools0))
        (initialized (s_init (env_search (twenty item_recovery_throws))) None tools0, []))
      = Inl [Text (of_ascii ''Timeout 30000ms exceeded'')]"
    by (simp add: search_body_def search_open_def run_simps process_notes_unfold process_item_def
        item_try_def close_dialog_def env_search_def twenty_def item_fine_def
        item_recovery_throws_def encode_tea)
  from kept s(3) searchNotes_body_failure [OF i body] show ?thesis by simp
qed

section \<open>The workflows: cleanup and navigation\<close>

lemma process_notes_emits:
  assumes "\<And>i e. emits_only P (process_item i e)"
  shows "emits_only P (process_notes limit items i)"
proof (induction "length items - i" arbitrary: i)
  case 0
  then show ?case
    by (subst process_notes_unfold) (simp add: emits_only_ret)
next
  case (Suc n)
  then have "n = length items - (i + 1)" by simp
  then have IH: "emits_only P (process_notes limit items (i + 1))" by (rule Suc.hyps(1))
  show ?case
    by (subst process_notes_unfold) (intro emits_only_intros assms IH)
qed

lemma process_notes_keeps:
  assumes "\<And>i e. keeps f (process_item i e)"
  shows "keeps f (process_notes limit items i)"
proof (induction "length items - i" arbitrary: i)
  case 0
  then show ?case
    by (subst process_notes_unfold) (simp add: keeps_ret)
next
  case (Suc n)
  then have "n = length items - (i + 1)" by simp
  then have IH: "keeps f (process_notes limit items (i + 1))" by (rule Suc.hyps(1))
  show ?case
    by (subst process_notes_unfold) (intro keeps_intros assms IH)
qed

lemmas item_defs = process_item_def item_try_def close_dialog_def

lemmas body_defs = search_body_def search_open_def content_body_def GetNoteDetail_def
  comments_body_def

lemma initialize_no_close: "emits_only (\<lambda>ev. \<not> is_close ev) (initialize e t)"
  unfolding initialize_def getBrowser_def getCookies_def
  by (intro emits_only_intros) (simp_all add: is_close_def)

lemma process_item_no_close: "emits_only (\<lambda>ev. \<not> is_close ev) (process_item i e)"
  unfolding item_defs by (intro emits_only_intros) (simp_all add: is_close_def)

lemma process_item_keeps: "keeps (\<lambda>s. rt_browser (fst s)) (process_item i e)"
  unfolding item_defs by (intro keeps_intros) (simp_all add: case_prod_beta)

lemma search_body_no_close: "emits_only (\<lambda>ev. \<not> is_close ev) (search_body e k l t)"
  unfolding body_defs
  by (intro emits_only_intros process_notes_emits process_item_no_close)
    (simp_all add: is_close_def)

lemma search_body_keeps: "keeps (\<lambda>s. rt_browser (fst s)) (search_body e k l t)"
  unfolding body_defs
  by (intro keeps_intros process_notes_keeps process_item_keeps)

lemma content_body_no_close: "emits_only (\<lambda>ev. \<not> is_close ev) (content_body e u t)"
  unfolding body_defs by (intro emits_only_intros) (simp_all add: is_close_def)

lemma content_body_keeps: "keeps rt_browser (content_body e u t)"
  unfolding body_defs by (intro keeps_intros)

lemma comments_body_no_close: "emits_only (\<lambda>ev. \<not> is_close ev) (comments_body e u t)"
  unfolding body_defs by (intro emits_only_intros) (simp_all add: is_close_def)

lemma comments_body_keeps: "keeps rt_browser (comments_body e u t)"
  unfolding body_defs by (intro keeps_intros)

lemma initialize_browser:
  assumes "result (initialize e t s) = Inr ()"
  shows "rt_browser (final (initialize e t s)) \<noteq> None"
proof (cases "rt_browser s")
  case (Some b)
  then show ?thesis by (simp add: initialize_def run_simps)
next
  case None
  with assms show ?thesis
    by (cases "i_launch e"; cases "i_newPage e"; cases "i_addCookies e"; cases "i_goto e";
        cases "i_loggedIn e"; cases "am_browser (authManager s)")
      (auto simp: initialize_def getBrowser_def getCookies_def run_simps if_distribR
        split: if_splits)
qed

lemma workflow_closes:
  assumes enter: "enters_try ie timeout s"
    and b: "rt_browser (initialized ie timeout s) = Some b"
    and quiet: "\<And>T. emits_only (\<lambda>ev. \<not> is_close ev) (body T)"
    and keeps: "\<And>T. keeps rt_browser (body T)"
  shows "browser_closed_last b (workflow ie timeout body s)"
proof -
  let ?T = "or_default timeout (rt_timeout s)"
  let ?s1 = "initialized ie timeout s"
  have b1: "rt_browser (final (body ?T ?s1)) = Some b"
    using keepsD [OF keeps, of ?T ?s1] b by simp
  note rc = run_cleanup [OF b1]
  have f0: "filter is_close (calls (initialize ie (Some ?T) s)) = []"
    by (rule emits_only_filter) (rule initialize_no_close)
  have f1: "filter is_close (calls (body ?T ?s1)) = []"
    using quiet by (rule emits_only_filter)
  show ?thesis
    by (simp add: browser_closed_last_def workflow_calls [OF enter] workflow_final [OF enter]
        rc f0 f1 is_close_def)
qed

lemma workflow_run:
  assumes init: "init_ok ie s b p"
    and keeps: "\<And>T. keeps rt_browser (body T)"
  shows "calls (workflow ie timeout body s)
     = init_calls s b (or_default timeout (rt_timeout s))
       @ calls (body (or_default timeout (rt_timeout s)) (after_init s b p)) @ [CloseBrowser b]"
    and "result (workflow ie timeout body s)
     = result (body (or_default timeout (rt_timeout s)) (after_init s b p))"
proof -
  let ?T = "or_default timeout (rt_timeout s)"
  note e = init_ok_enters [OF init, of timeout]
  have b1: "rt_browser (final (body ?T (after_init s b p))) = Some b"
    using keepsD [OF keeps, of ?T "after_init s b p"] by (simp add: after_init_simps)
  show "calls (workflow ie timeout body s)
     = init_calls s b ?T @ calls (body ?T (after_init s b p)) @ [CloseBrowser b]"
    by (simp add: workflow_calls [OF e(1)] e(2) run_initialize [OF init] run_cleanup [OF b1])
  show "result (workflow ie timeout body s) = result (body ?T (after_init s b p))"
    by (simp add: workflow_result [OF e(1)] e(2))
qed

lemma auth_cleanup_run:
  "calls (auth_cleanup a) = close_calls a"
  "final (auth_cleanup a) = a\<lparr>am_page := None, am_context := None, am_browser := None\<rparr>"
  by (simp_all add: auth_cleanup_def run_simps run_close_session)

lemma close_calls_parts: "filter (\<lambda>ev. \<not> closes_part ev) (close_calls a) = []"
  by (simp add: close_calls_def closes_part_def split: option.splits)

text \<open>
  C4, as the code has it. A call of one of the three workflows that enters its \<open>try\<close> block
  (\<open>initialize\<close> returns and there is a page) ends, whether its body returns or throws, with
  the call that closes the browser \<open>b\<close> that the object holds then, and it holds one; this is
  its only closing call (the page is not closed on its own, and no context is), and the fields
  \<open>browser\<close> and \<open>page\<close> are reset. \<open>AuthManager.cleanup\<close> closes the page and the context
  it holds, nothing else, and drops the three references: the browser is not closed there.
\<close>

theorem workflows_close_browser:
  "(enters_try (s_init se) timeout s \<and> rt_browser (initialized (s_init se) timeout s) = Some b
      \<longrightarrow> browser_closed_last b (searchNotes se query limit timeout s))
   \<and> (enters_try (c_init ce) timeout s \<and> rt_browser (initialized (c_init ce) timeout s) = Some b
      \<longrightarrow> browser_closed_last b (getNoteContent ce url timeout s))
   \<and> (enters_try (m_init me) timeout s \<and> rt_browser (initialized (m_init me) timeout s) = Some b
      \<longrightarrow> browser_closed_last b (getNoteComments me url timeout s))
   \<and> (enters_try ie timeout s \<longrightarrow> rt_browser (initialized ie timeout s) \<noteq> None)
   \<and> calls (auth_cleanup a) = close_calls a
   \<and> filter (\<lambda>ev. \<not> closes_part ev) (close_calls a) = []
   \<and> final (auth_cleanup a) = a\<lparr>am_page := None, am_context := None, am_browser := None\<rparr>"
proof (intro conjI impI; (elim conjE)?)
  show "browser_closed_last b (searchNotes se query limit timeout s)"
    if "enters_try (s_init se) timeout s" "rt_browser (initialized (s_init se) timeout s) = Some b"
    unfolding searchNotes_workflow using that
    by (rule workflow_closes)
      (intro emits_only_with_notes search_body_no_close keeps_with_notes search_body_keeps)+
  show "browser_closed_last b (getNoteContent ce url timeout s)"
    if "enters_try (c_init ce) timeout s" "rt_browser (initialized (c_init ce) timeout s) = Some b"
    unfolding getNoteContent_workflow using that
    by (rule workflow_closes) (rule content_body_no_close content_body_keeps)+
  show "browser_closed_last b (getNoteComments me url timeout s)"
    if "enters_try (m_init me) timeout s" "rt_browser (initialized (m_init me) timeout s) = Some b"
    unfolding getNoteComments_workflow using that
    by (rule workflow_closes) (rule comments_body_no_close comments_body_keeps)+
  show "rt_browser (initialized ie timeout s) \<noteq> None" if "enters_try ie timeout s"
    using that initialize_browser by (auto simp: enters_try_def initialized_def)
qed (simp_all add: auth_cleanup_run close_calls_parts)

lemma init_calls_tools0: "init_calls tools0 5 T
    = [Launch, NewPage 5, LoadCookies, AddCookies persisted, Goto home_url T, Evaluate]"
  by (simp add: init_calls_def tools0_def new_rednote_tools_def new_auth_manager_def persisted_def)

lemma timeout_tools0: "or_default None (rt_timeout tools0) = 30000"
  by (simp add: tools0_def new_rednote_tools_def or_default_def)

lemma searchNotes_run:
  assumes "init_ok (s_init e) s b p"
  shows "calls (searchNotes e query limit timeout s)
     = init_calls s b (or_default timeout (rt_timeout s))
       @ calls (search_body e query (case limit of None \<Rightarrow> 10 | Some l \<Rightarrow> l)
                  (or_default timeout (rt_timeout s)) (after_init s b p, []))
       @ [CloseBrowser b]"
    and "result (searchNotes e query limit timeout s)
     = result (search_body e query (case limit of None \<Rightarrow> 10 | Some l \<Rightarrow> l)
                  (or_default timeout (rt_timeout s)) (after_init s b p, []))"
  unfolding searchNotes_workflow
  by (subst workflow_run [OF assms];
      (intro keeps_with_notes search_body_keeps)?; simp add: run_with_notes)+

lemma getNoteContent_run:
  assumes "init_ok (c_init e) s b p"
  shows "calls (getNoteContent e url timeout s)
     = init_calls s b (or_default timeout (rt_timeout s))
       @ calls (content_body e url (or_default timeout (rt_timeout s)) (after_init s b p))
       @ [CloseBrowser b]"
    and "result (getNoteContent e url timeout s)
     = result (content_body e url (or_default timeout (rt_timeout s)) (after_init s b p))"
  unfolding getNoteContent_workflow
  by (subst workflow_run [OF assms]; (rule content_body_keeps)?; simp)+

lemma getNoteComments_run:
  assumes "init_ok (m_init e) s b p"
  shows "calls (getNoteComments e url timeout s)
     = init_calls s b (or_default timeout (rt_timeout s))
       @ calls (comments_body e url (or_default timeout (rt_timeout s)) (after_init s b p))
       @ [CloseBrowser b]"
    and "result (getNoteComments e url timeout s)
     = result (comments_body e url (or_default timeout (rt_timeout s)) (after_init s b p))"
  unfolding getNoteComments_workflow
  by (subst workflow_run [OF assms]; (rule comments_body_keeps)?; simp)+

theorem workflows_close_browser_witness:
  "browser_closed_last 5
     (searchNotes (env_search [item_fine 2]) (of_ascii ''tea'') None None tools0)
   \<and> result (getNoteComments (env_comments (Throws (of_ascii ''net::ERR_ABORTED'')))
        (of_ascii ''https://www.xiaohongshu.com/explore/66aa'') None tools0)
       = Inl (comments_goto_error 30000)
   \<and> browser_closed_last 5
       (getNoteComments (env_comments (Throws (of_ascii ''net::ERR_ABORTED'')))
          (of_ascii ''https://www.xiaohongshu.com/explore/66aa'') None tools0)
   \<and> browser_closed_last 8
       (getNoteContent (env_content (Throws (of_ascii ''no note'')))
          (of_ascii ''https://www.xiaohongshu.com/explore/66aa'') None tools_held)
   \<and> calls (auth_cleanup \<lparr>am_browser = Some 2, am_context = Some 3, am_page = Some 4,
        cookie_file = []\<rparr>) = [ClosePage 4, CloseContext 3]"
proof -
  have i: "init_ok (s_init (env_search [item_fine 2])) tools0 5 6"
    "init_ok (m_init (env_comments (Throws (of_ascii ''net::ERR_ABORTED'')))) tools0 5 6"
    using init_fine_ok by (simp_all add: env_search_def env_comments_def)
  note e1 = init_ok_enters [OF i(1), of None]
  note e2 = init_ok_enters [OF i(2), of None]
  note e3 = tools_held_enters [of "c_init (env_content (Throws (of_ascii ''no note'')))" None]
  have b: "rt_browser (after_init tools0 5 6) = Some 5" "rt_browser tools_held = Some 8"
    by (simp_all add: after_init_simps tools_held_def)
  have r: "result (getNoteComments (env_comments (Throws (of_ascii ''net::ERR_ABORTED'')))
        (of_ascii ''https://www.xiaohongshu.com/explore/66aa'') None tools0)
       = Inl (comments_goto_error 30000)"
    by (simp only: getNoteComments_run [OF i(2)])
      (simp add: comments_body_def run_simps env_comments_def timeout_tools0)
  show ?thesis
    using workflows_close_browser [where se = "env_search [item_fine 2]" and s = tools0
        and b = 5 and me = "env_comments (Throws (of_ascii ''net::ERR_ABORTED''))"
        and timeout = None
        and a = "\<lparr>am_browser = Some 2, am_context = Some 3, am_page = Some 4,
          cookie_file = []\<rparr>"]
      workflows_close_browser [where s = tools_held and b = 8 and timeout = None
        and ce = "env_content (Throws (of_ascii ''no note''))"]
      e1 e2 e3 b r
    by (simp add: close_calls_def)
qed

theorem workflows_close_browser_counterexample:
  "result (searchNotes (env_search []) (of_ascii ''tea'') None None tools0) = Inr []
   \<and> calls (searchNotes (env_search []) (of_ascii ''tea'') None None tools0)
       = [Launch, NewPage 5, LoadCookies, AddCookies persisted, Goto home_url 30000, Evaluate,
          Goto (search_url (of_ascii ''tea'')) 30000,
          WaitForSelector feeds_container Visible 30000, QueryAll note_items, CloseBrowser 5]"
proof -
  have i: "init_ok (s_init (env_search [])) tools0 5 6"
    using init_fine_ok by (simp add: env_search_def)
  show ?thesis
    by (simp only: searchNotes_run [OF i])
      (simp add: init_calls_tools0 timeout_tools0 search_body_def
        search_open_def run_simps process_notes_unfold env_search_def encode_tea)
qed

text \<open>
  C6. Whatever \<open>getNoteContent\<close> returns has the caller's string as its \<open>url\<close>, whatever address
  was navigated to and whatever \<open>GetNoteDetail\<close> read from the page; and it does return, the detail
  with that field overwritten, when \<open>initialize\<close>, the navigation and \<open>GetNoteDetail\<close> succeed.
\<close>

theorem getNoteContent_keeps_url:
  "(result (getNoteContent e url timeout s) = Inr n \<longrightarrow> nd_url n = url)
   \<and> (init_ok (c_init e) s b p \<and> c_goto e = Returns () \<and> c_detail e = Returns d \<longrightarrow>
        result (getNoteContent e url timeout s) = Inr (d\<lparr>nd_url := url\<rparr>))"
proof (intro conjI impI)
  have "returns_only (\<lambda>n. nd_url n = url) (getNoteContent e url timeout)"
    unfolding getNoteContent_def content_body_def
    by (intro returns_only_intros) simp
  moreover assume "result (getNoteContent e url timeout s) = Inr n"
  ultimately show "nd_url n = url"
    by (simp add: returns_only_def)
next
  assume a: "init_ok (c_init e) s b p \<and> c_goto e = Returns () \<and> c_detail e = Returns d"
  then have i: "init_ok (c_init e) s b p" by simp
  from a show "result (getNoteContent e url timeout s) = Inr (d\<lparr>nd_url := url\<rparr>)"
    by (simp add: getNoteContent_run [OF i] content_body_def GetNoteDetail_def run_simps)
qed

theorem getNoteContent_keeps_url_witness:
  "result (getNoteContent (env_content (Returns detail_66aa)) share_text_short None tools0)
     = Inr \<lparr>nd_title = of_ascii ''tea'', nd_url = share_text_short\<rparr>
   \<and> nd_url detail_66aa \<noteq> share_text_short
   \<and> extractRedBookUrl share_text_short \<noteq> share_text_short"
proof -
  have i: "init_ok (c_init (env_content (Returns detail_66aa))) tools0 5 6"
    using init_fine_ok by (simp add: env_content_def)
  have "nd_url detail_66aa \<noteq> share_text_short"
    by (simp add: detail_66aa_def share_text_short_def of_ascii_def)
  moreover have "extractRedBookUrl share_text_short \<noteq> share_text_short"
    by (simp only: extract_share_text_short) (simp add: share_text_short_def of_ascii_def)
  ultimately show ?thesis
    using getNoteContent_keeps_url [where e = "env_content (Returns detail_66aa)"
        and s = tools0 and b = 5 and p = 6 and d = detail_66aa and url = share_text_short
        and timeout = None] i
    by (simp add: env_content_def) (simp add: detail_66aa_def)
qed

lemma goto_targets_simps:
  "goto_targets [] = []"
  "goto_targets (xs @ ys) = goto_targets xs @ goto_targets ys"
  by (simp_all add: goto_targets_def)

lemma goto_targets_Cons:
  "goto_targets (ev # evs) = (case ev of Goto u t \<Rightarrow> [u] | _ \<Rightarrow> []) @ goto_targets evs"
  by (simp add: goto_targets_def)

lemma goto_targets_init: "goto_targets (init_calls s b T) = [home_url]"
  by (simp add: init_calls_def goto_targets_simps goto_targets_Cons)

lemma goto_targets_within:
  assumes "emits_only (\<lambda>ev. set (goto_targets [ev]) \<subseteq> U) m"
  shows "set (goto_targets (calls (m s))) \<subseteq> U"
proof -
  have all: "\<forall>ev \<in> set evs. set (goto_targets [ev]) \<subseteq> U \<Longrightarrow> set (goto_targets evs) \<subseteq> U"
    for evs
    by (induction evs) (simp_all add: goto_targets_simps goto_targets_Cons)
  from assms have "\<forall>ev \<in> set (calls (m s)). set (goto_targets [ev]) \<subseteq> U"
    by (simp add: emits_only_def)
  then show ?thesis
    by (rule all)
qed

lemma comments_body_targets: "goto_targets (calls (comments_body e url T s)) = [url]"
  by (cases "m_goto e"; cases "m_list e"; cases "m_comments e")
    (simp_all add: comments_body_def run_simps goto_targets_simps goto_targets_Cons)

lemma content_body_targets:
  "goto_targets (calls (content_body e url T s)) = [extractRedBookUrl url]"
  by (cases "c_goto e"; cases "c_detail e")
    (simp_all add: content_body_def GetNoteDetail_def run_simps goto_targets_simps
      goto_targets_Cons)

text \<open>
  C10. \<open>getNoteComments\<close> navigates to the home page (in \<open>initialize\<close>) and to the caller's
  string as it is, and nowhere else; \<open>getNoteContent\<close> navigates to what \<open>extractRedBookUrl\<close>
  makes of the string.
\<close>

theorem getNoteComments_navigates_verbatim:
  "set (goto_targets (calls (getNoteComments e url timeout s))) \<subseteq> {home_url, url}
   \<and> (init_ok (m_init e) s b p \<longrightarrow>
        goto_targets (calls (getNoteComments e url timeout s)) = [home_url, url])
   \<and> (init_ok (c_init e') s b p \<longrightarrow>
        goto_targets (calls (getNoteContent e' url timeout s))
          = [home_url, extractRedBookUrl url])"
proof (intro conjI impI)
  show "set (goto_targets (calls (getNoteComments e url timeout s))) \<subseteq> {home_url, url}"
    unfolding getNoteComments_def initialize_def getBrowser_def getCookies_def
      comments_body_def cleanup_def
    apply (rule goto_targets_within)
    apply (intro emits_only_intros)
    apply (simp_all add: goto_targets_simps goto_targets_Cons)
    done
next
  assume i: "init_ok (m_init e) s b p"
  show "goto_targets (calls (getNoteComments e url timeout s)) = [home_url, url]"
    by (simp add: getNoteComments_run [OF i] goto_targets_simps goto_targets_Cons goto_targets_init
        comments_body_targets)
next
  assume i: "init_ok (c_init e') s b p"
  show "goto_targets (calls (getNoteContent e' url timeout s))
      = [home_url, extractRedBookUrl url]"
    by (simp add: getNoteContent_run [OF i] goto_targets_simps goto_targets_Cons goto_targets_init
        content_body_targets)
qed

theorem getNoteComments_navigates_verbatim_witness:
  "goto_targets (calls (getNoteComments (env_comments (Returns ())) share_text_short None tools0))
     = [home_url, share_text_short]
   \<and> goto_targets (calls (getNoteContent (env_content (Returns detail_66aa)) share_text_short
         None tools0))
     = [home_url, of_ascii ''http://xhslink.com/a/Bc1'']
   \<and> share_text_short \<noteq> of_ascii ''http://xhslink.com/a/Bc1''"
proof -
  have i: "init_ok (m_init (env_comments (Returns ()))) tools0 5 6"
    "init_ok (c_init (env_content (Returns detail_66aa))) tools0 5 6"
    using init_fine_ok by (simp_all add: env_content_def env_comments_def)
  have "share_text_short \<noteq> of_ascii ''http://xhslink.com/a/Bc1''"
    by (simp add: share_text_short_def of_ascii_def)
  then show ?thesis
    using getNoteComments_navigates_verbatim [where e = "env_comments (Returns ())"
        and e' = "env_content (Returns detail_66aa)" and s = tools0 and b = 5 and p = 6
        and url = share_text_short and timeout = None] i
    by (simp add: extract_share_text_short)
qed

section \<open>Errors of timed-out waits\<close>














subsection \<open>One attempt of \<open>login\<close>\<close>











subsection \<open>The loop of \<open>login\<close>\<close>






subsection \<open>\<open>initialize\<close> and the workflows\<close>


















section \<open>The timeout of an operation\<close>


























lemma tools_45000_ok: "init_ok init_fine tools_45000 5 6"
  by (simp add: init_ok_def init_fine_def tools_45000_def cli_tools_def new_rednote_tools_def
      new_auth_manager_def)

lemma tools_45000_simps:
  "rt_timeout tools_45000 = 45000"
  "init_calls tools_45000 5 T
     = [Launch, NewPage 5, LoadCookies, AddCookies persisted, Goto home_url T, Evaluate]"
  by (simp_all add: init_calls_def tools_45000_def cli_tools_def new_rednote_tools_def
      new_auth_manager_def persisted_def or_default_def)


lemma run_comments_45000:
  "calls (getNoteComments (env_comments (Returns ())) url tm tools_45000)
     = [Launch, NewPage 5, LoadCookies, AddCookies persisted,
        Goto home_url (or_default tm 45000), Evaluate,
        Goto url (or_default tm 45000),
        WaitForSelector comment_list Visible (or_default tm 45000), Evaluate, CloseBrowser 5]"
proof -
  have i: "init_ok (m_init (env_comments (Returns ()))) tools_45000 5 6"
    using tools_45000_ok by (simp add: env_comments_def)
  show ?thesis
    by (simp only: getNoteComments_run [OF i] tools_45000_simps)
      (simp add: comments_body_def run_simps env_comments_def)
qed






end
